theory Spec2Isabelle
  imports Complex_Main
begin

section \<open>Data model\<close>

text \<open>
  Absolute times are JavaScript time values: milliseconds since the epoch, as \<open>Date.getTime()\<close>
  returns them. A rejected promise or a thrown exception is the value \<open>Throws\<close>.
\<close>

type_synonym time = int

datatype 'a outcome = Throws string | Returns 'a

datatype reminder_type = Task | Meeting | Location

datatype reminder_status = Active | Expired | Completed

datatype schedule_type = OneDay | Routine

datatype tts_status = Pending | Ready | Failed

text \<open>
  \<open>crypto.createHash('sha256').update(s).digest('hex')\<close> is modelled symbolically: the digest
  of a string is the constructor \<open>Sha256\<close> applied to it (a collision-free hash). A digest is a
  64-character hex string, hence always truthy.
\<close>

datatype digest = Sha256 string

record user =
  uid :: nat
  fullname :: "string option"

record audio =
  data :: "nat list"
  contentType :: string
  audio_size :: nat

record tts =
  voiceId :: "string option"
  textHash :: "digest option"
  audio :: "audio option"
  tts_status :: tts_status
  generatedAt :: "time option"

record schedule_time =
  minutesBeforeStart :: "rat option"
  fixedTime :: "string option"

record triggered_location =
  tl_lat :: "real option"
  tl_lng :: "real option"
  placeId :: "string option"
  tl_name :: "string option"
  tl_rating :: "real option"

text \<open>
  The reminder document of \<open>models/reminderModel.js\<close>, with \<open>user\<close> populated
  (\<open>populate('user', 'fullname')\<close>). \<open>rid\<close> is the document's \<open>_id\<close>; \<open>location_name\<close>
  is \<open>location.name\<close>.
\<close>

record reminder =
  rid :: nat
  user :: user
  type :: reminder_type
  title :: string
  description :: "string option"
  startDate :: "time option"
  location_name :: "string option"
  day :: "string option"
  status :: reminder_status
  lastTriggeredAt :: "time option"
  triggeredLocation :: "triggered_location option"
  isManualSchedule :: bool
  scheduleType :: "schedule_type option"
  scheduleTime :: "schedule_time option"
  scheduleDays :: "int list option"
  aiSuggested :: bool
  aiNotificationLine :: "string option"
  notificationPreferenceMinutes :: rat
  isCompleted :: bool
  tts :: tts

record notification =
  n_userId :: nat
  n_type :: string
  n_message :: string
  n_isRead :: bool
  n_reminderId :: nat

text \<open>
  The state the code reads and writes: the two collections, the log of speech-synthesis
  requests sent, and \<open>faults\<close>, which fixes for each successive database call whether it
  rejects (\<open>True\<close>); once the list is used up every call succeeds.
\<close>

record world =
  reminders :: "reminder list"
  notifications :: "notification list"
  faults :: "bool list"
  synthLog :: "(string \<times> string option) list"

text \<open>
  A JavaScript number of the location code: NaN, or a finite double, which is the real
  number it denotes. Magnitudes are taken to stay inside the range of doubles, so that no
  operation overflows to an infinity; the sign of zero is not distinguished.
\<close>

datatype number = NaN | Num real

text \<open>A value produced by \<open>JSON.parse\<close>; an object is the list of its key/value pairs.\<close>

datatype json = JNull | JBool bool | JNum rat | JStr string | JArr "json list" | JObj "(string \<times> json) list"

record place =
  place_id :: "string option"
  p_name :: "string option"
  p_rating :: "real option"
  p_lat :: "real option"
  p_lng :: "real option"

text \<open>
  Everything the code takes from outside the repository's logic, as parameters:
  the JavaScript runtime (\<open>JSON.parse\<close> with \<open>None\<close> for a SyntaxError, \<open>String.prototype.trim\<close>,
  the \<open>Date\<close> constructor with \<open>None\<close> for an Invalid Date, the local \<open>getHours\<close> and
  \<open>getDay\<close>), the environment variables, and the outcome of each external capability call:
  \<^item> \<open>geminiLoaded\<close>: \<open>require('./geminiService')\<close> succeeded;
  \<^item> \<open>generateSchedule\<close>: the text \<open>suggestFullScheduleWithGemini\<close> obtains from the model for
    an item (type, title, description) at a time, or the exception of \<open>buildColumnA\<close>,
    \<open>getModel\<close> or \<open>generateContent\<close>;
  \<^item> \<open>generateLine\<close>: the outcome of \<open>generateNotificationLineWithGemini\<close>;
  \<^item> \<open>synthesize\<close>: the outcome of \<open>generateElevenLabsAudio\<close> (the audio bytes);
  \<^item> \<open>nearbyBestPlace\<close>: the outcome of \<open>nearbyBestPlaceByKeyword\<close> for lat, lng, radius, keyword;
  \<^item> \<open>pollBudget\<close>: how many iterations of the 250 ms poll fit into its 2000 ms ceiling.

  The arithmetic of the runtime is a parameter as well: \<open>fl\<close> gives the double that an
  arithmetic operation or a numeric conversion returns for its exact result, and
  \<open>Math_sin\<close>, \<open>Math_cos\<close>, \<open>Math_sqrt\<close> (on arguments that are not negative) and \<open>Math_atan2\<close> are the
  functions of \<open>Math\<close> on finite arguments, \<open>Math_PI\<close> its constant.
\<close>

record host =
  JSON_parse :: "string \<Rightarrow> json option"
  trim :: "string \<Rightarrow> string"
  Date_parse :: "json \<Rightarrow> time option"
  getHours :: "time \<Rightarrow> int"
  getDay :: "time \<Rightarrow> nat"
  ELEVENLABS_DEFAULT_VOICE_ID :: "string option"
  LOCATION_MAX_TRIGGER_METERS :: "string option"
  geminiLoaded :: bool
  generateSchedule :: "reminder_type \<Rightarrow> string \<Rightarrow> string \<Rightarrow> time \<Rightarrow> string outcome"
  generateLine :: "reminder \<Rightarrow> user \<Rightarrow> string outcome"
  synthesize :: "string \<Rightarrow> string option \<Rightarrow> nat list outcome"
  nearbyBestPlace :: "real \<Rightarrow> real \<Rightarrow> real \<Rightarrow> string \<Rightarrow> place option outcome"
  pollBudget :: nat
  fl :: "real \<Rightarrow> real"
  Math_PI :: real
  Math_sin :: "real \<Rightarrow> real"
  Math_cos :: "real \<Rightarrow> real"
  Math_sqrt :: "real \<Rightarrow> real"
  Math_atan2 :: "real \<Rightarrow> real \<Rightarrow> real"

definition dbCall :: "world \<Rightarrow> bool \<times> world" where
  "dbCall w = (case faults w of [] \<Rightarrow> (False, w) | f # fs \<Rightarrow> (f, w\<lparr>faults := fs\<rparr>))"

section \<open>Schedule Resolver: the heuristic slot finder (services/aiScheduler.js)\<close>

definition oneHour :: int where
  "oneHour = 60 * 60 * 1000"

definition sevenDays :: int where
  "sevenDays = 7 * 24 * 60 * 60 * 1000"

text \<open>
  The \<open>for\<close> loop of \<open>findSmartSlot\<close>; \<open>hours\<close> is the host's \<open>getHours\<close> (the local hour of a
  time value). The function returns \<open>new Date(d.toISOString())\<close>, which is \<open>d\<close> again. The set
  \<open>busy\<close> of ISO strings is modelled as the list of the time values they print:
  \<open>toISOString\<close> is injective on time values.
\<close>

function slotLoop :: "(time \<Rightarrow> int) \<Rightarrow> time list \<Rightarrow> time \<Rightarrow> time \<Rightarrow> time option" where
  "slotLoop hours busy horizon d =
     (if d \<le> horizon then
        (if hours d < 9 \<or> hours d \<ge> 18 then slotLoop hours busy horizon (d + oneHour)
         else if d \<notin> set busy then Some d
         else slotLoop hours busy horizon (d + oneHour))
      else None)"
  by pat_completeness auto
termination
  by (relation "measure (\<lambda>(g, b, h, d). nat (h + 1 - d))") (auto simp: oneHour_def)

declare slotLoop.simps [simp del]

definition findSmartSlot :: "host \<Rightarrow> nat \<Rightarrow> time \<Rightarrow> world \<Rightarrow> time option outcome \<times> world" where
  "findSmartSlot h userId now w =
     (let horizon = now + sevenDays;
          (rejected, w1) = dbCall w
      in if rejected then (Throws ''Reminder.find rejected'', w1)
         else
           let existing = filter (\<lambda>e. uid (user e) = userId \<and>
                    (case startDate e of None \<Rightarrow> False | Some s \<Rightarrow> now \<le> s \<and> s \<le> horizon))
                  (reminders w1);
               busy = List.map_filter startDate existing
           in (Returns (slotLoop (getHours h) busy horizon (now + oneHour)), w1))"

text \<open>
  The specification's free slot: the local hour is inside the window from 09:00 to 18:00
  and no reminder of the user starts exactly then.
\<close>

definition freeSlot :: "host \<Rightarrow> nat \<Rightarrow> world \<Rightarrow> time \<Rightarrow> bool" where
  "freeSlot h usr w x =
     (9 \<le> getHours h x \<and> getHours h x < 18 \<and>
      \<not> (\<exists>r \<in> set (reminders w). uid (user r) = usr \<and> startDate r = Some x))"

section \<open>AI schedule suggestion (geminiService: suggestFullScheduleWithGemini)\<close>

text \<open>JavaScript truthiness of a parsed JSON value (a number from JSON is never NaN).\<close>

fun truthy :: "json \<Rightarrow> bool" where
  "truthy JNull = False"
| "truthy (JBool b) = b"
| "truthy (JNum n) = (n \<noteq> 0)"
| "truthy (JStr s) = (s \<noteq> [])"
| "truthy (JArr xs) = True"
| "truthy (JObj kvs) = True"

text \<open>
  Property access \<open>v.k\<close> on a non-null value, for the keys the code reads: \<open>None\<close> is
  \<open>undefined\<close>. Only an object has these properties; \<open>JSON.parse\<close> keeps one value per key.
\<close>

fun field :: "json \<Rightarrow> string \<Rightarrow> json option" where
  "field (JObj kvs) k = map_of kvs k"
| "field v k = None"

text \<open>\<open>Number.isInteger(n) && n >= 0 && n <= 6\<close> on the elements of an array.\<close>

fun weekdayOf :: "json \<Rightarrow> int option" where
  "weekdayOf (JNum q) = (if of_int \<lfloor>q\<rfloor> = q \<and> 0 \<le> q \<and> q \<le> 6 then Some \<lfloor>q\<rfloor> else None)"
| "weekdayOf v = None"

text \<open>
  The argument of a later \<open>new Date(...)\<close>: either the value the model sent, or the string
  that \<open>toISOString\<close> printed for a time value, which \<open>new Date\<close> reads back as that value.
\<close>

datatype date_source = ISO time | Raw json

fun newDate :: "host \<Rightarrow> date_source \<Rightarrow> time option" where
  "newDate h (ISO t) = Some t"
| "newDate h (Raw v) = Date_parse h v"

record schedule =
  startDateISO :: "date_source option"
  s_scheduleType :: schedule_type
  s_scheduleDays :: "int list"
  s_scheduleTime :: schedule_time

text \<open>\<open>text.match(/\{[\s\S]*\}/)\<close>: from the first opening brace to the last closing brace after it.\<close>

definition matchJsonBlock :: "string \<Rightarrow> string option" where
  "matchJsonBlock text =
     (let s = dropWhile (\<lambda>c. c \<noteq> CHR ''{'') text;
          m = rev (dropWhile (\<lambda>c. c \<noteq> CHR ''}'') (rev s))
      in if m = [] then None else Some m)"

text \<open>Lines 87 to 98: the parsed reply, or \<open>None\<close> where the code throws "non-JSON schedule".\<close>

definition parseReply :: "host \<Rightarrow> string \<Rightarrow> json option" where
  "parseReply h raw =
     (let text = trim h raw;
          obj = (case JSON_parse h text of
                   Some v \<Rightarrow> Some v
                 | None \<Rightarrow> (case matchJsonBlock text of
                              Some m \<Rightarrow> JSON_parse h m
                            | None \<Rightarrow> None))
      in case obj of
           None \<Rightarrow> None
         | Some v \<Rightarrow> (if \<not> truthy v then None
                      else case v of JArr xs \<Rightarrow> Some v | JObj kvs \<Rightarrow> Some v | _ \<Rightarrow> None))"

text \<open>Lines 100 to 108: the schedule object built from the reply.\<close>

definition scheduleOf :: "json \<Rightarrow> schedule" where
  "scheduleOf obj =
     \<lparr>startDateISO = (case field obj ''startDateISO'' of
                        Some v \<Rightarrow> if truthy v then Some (Raw v) else None
                      | None \<Rightarrow> None),
      s_scheduleType = (if field obj ''scheduleType'' = Some (JStr ''routine'') then Routine else OneDay),
      s_scheduleDays = (case field obj ''scheduleDays'' of
                          Some (JArr xs) \<Rightarrow> List.map_filter weekdayOf xs
                        | _ \<Rightarrow> []),
      s_scheduleTime =
        \<lparr>minutesBeforeStart = (case field obj ''scheduleTime'' of
                                  Some st \<Rightarrow> (if \<not> truthy st then None
                                              else case field st ''minutesBeforeStart'' of
                                                     Some (JNum q) \<Rightarrow> Some q
                                                   | _ \<Rightarrow> None)
                                | None \<Rightarrow> None),
         fixedTime = (case field obj ''scheduleTime'' of
                        Some st \<Rightarrow> (if \<not> truthy st then None
                                    else case field st ''fixedTime'' of
                                           Some (JStr f) \<Rightarrow> Some f
                                         | _ \<Rightarrow> None)
                      | None \<Rightarrow> None)\<rparr>\<rparr>"

text \<open>Lines 110 to 119, the "basic validity checks": \<open>None\<close> is the \<open>return null\<close>.\<close>

definition validSchedule :: "host \<Rightarrow> time \<Rightarrow> schedule \<Rightarrow> schedule option" where
  "validSchedule h now sch =
     (case s_scheduleType sch of
        OneDay \<Rightarrow>
          (case startDateISO sch of
             None \<Rightarrow> None
           | Some src \<Rightarrow>
               (case newDate h src of
                  None \<Rightarrow> None
                | Some d \<Rightarrow> if d \<le> now then None else Some sch))
      | Routine \<Rightarrow>
          (case fixedTime (s_scheduleTime sch) of
             None \<Rightarrow> None
           | Some f \<Rightarrow> if f = [] then None else Some sch))"

definition suggestFullScheduleWithGemini ::
    "host \<Rightarrow> time \<Rightarrow> reminder_type \<Rightarrow> string \<Rightarrow> string \<Rightarrow> schedule option outcome" where
  "suggestFullScheduleWithGemini h now itemType itemTitle itemDescription =
     (case generateSchedule h itemType itemTitle itemDescription now of
        Throws e \<Rightarrow> Throws e
      | Returns raw \<Rightarrow>
          (case parseReply h raw of
             None \<Rightarrow> Throws ''Gemini returned non-JSON schedule''
           | Some obj \<Rightarrow> Returns (validSchedule h now (scheduleOf obj))))"

section \<open>Notification text and speech (utils/ttsService.js)\<close>

text \<open>\<open>fullname.split(' ')[0]\<close>\<close>

definition firstWord :: "string \<Rightarrow> string" where
  "firstWord s = takeWhile (\<lambda>c. c \<noteq> CHR '' '') s"

text \<open>
  \<open>buildNotificationText\<close>; its third parameter \<open>fixedMinutes\<close> is never read.
  \<open>templateText\<close> is lines 11 to 22 of it; the schema admits the three types only, so the last
  template there is never reached.
\<close>

definition templateText :: "reminder \<Rightarrow> user \<Rightarrow> string" where
  "templateText r u =
     (let name = (case fullname u of None \<Rightarrow> ''there''
                  | Some f \<Rightarrow> if firstWord f = [] then ''there'' else firstWord f)
      in case type r of
           Task \<Rightarrow> ''Hey '' @ name @ '', reminder: '' @ title r @ ''.''
         | Meeting \<Rightarrow> ''Hey '' @ name @ '', reminder for meeting: '' @ title r @ ''.''
         | Location \<Rightarrow>
             ''Hey '' @ name @ '', you are near '' @
               (case location_name r of None \<Rightarrow> ''your saved place''
                | Some n \<Rightarrow> if n = [] then ''your saved place'' else n) @ ''.'')"

definition buildNotificationText :: "reminder \<Rightarrow> user \<Rightarrow> string" where
  "buildNotificationText r u =
     (case aiNotificationLine r of
        Some l \<Rightarrow> if l \<noteq> [] then l else templateText r u
      | None \<Rightarrow> templateText r u)"

text \<open>The template literal \<open>`${voiceId}::${text}`\<close> prints an undefined voice as "undefined".\<close>

definition computeTextHash :: "string \<Rightarrow> string option \<Rightarrow> digest" where
  "computeTextHash text v =
     Sha256 ((case v of None \<Rightarrow> ''undefined'' | Some s \<Rightarrow> s) @ ''::'' @ text)"

text \<open>\<open>a || b\<close> on optional strings: the empty string and \<open>undefined\<close> are falsy.\<close>

definition orElse :: "string option \<Rightarrow> string option \<Rightarrow> string option" where
  "orElse a b = (case a of Some s \<Rightarrow> if s \<noteq> [] then a else b | None \<Rightarrow> b)"

text \<open>\<open>Reminder.findById\<close> and \<open>document.save()\<close> on the reminder collection.\<close>

definition findById :: "nat \<Rightarrow> world \<Rightarrow> reminder option outcome \<times> world" where
  "findById i w =
     (let (rejected, w1) = dbCall w
      in if rejected then (Throws ''findById rejected'', w1)
         else (Returns (find (\<lambda>r. rid r = i) (reminders w1)), w1))"

definition save :: "reminder \<Rightarrow> world \<Rightarrow> unit outcome \<times> world" where
  "save r w =
     (let (rejected, w1) = dbCall w
      in if rejected then (Throws ''save rejected'', w1)
         else (Returns (), w1\<lparr>reminders := map (\<lambda>x. if rid x = rid r then r else x) (reminders w1)\<rparr>))"

text \<open>
  The pieces of \<open>ensureReminderTTS\<close>: the text and the voice it hashes (lines 68 and 69), the
  test that the stored audio is current (line 73), and the three states it writes into the
  \<open>tts\<close> record (lines 78 to 82, 87 to 93 and 96).
\<close>

definition ttsText :: "reminder \<Rightarrow> user option \<Rightarrow> string" where
  "ttsText reminder optUser =
     buildNotificationText reminder (case optUser of Some u \<Rightarrow> u | None \<Rightarrow> user reminder)"

definition ttsVoice :: "host \<Rightarrow> reminder \<Rightarrow> string option \<Rightarrow> string option" where
  "ttsVoice h reminder overrideVoiceId =
     orElse (orElse overrideVoiceId (voiceId (tts reminder))) (ELEVENLABS_DEFAULT_VOICE_ID h)"

definition upToDate :: "digest \<Rightarrow> reminder \<Rightarrow> bool" where
  "upToDate hash reminder =
     (textHash (tts reminder) = Some hash \<and> tts_status (tts reminder) = Ready \<and>
      (case audio (tts reminder) of Some a \<Rightarrow> length (data a) \<noteq> 0 | None \<Rightarrow> False))"

definition markPending :: "string option \<Rightarrow> digest \<Rightarrow> reminder \<Rightarrow> reminder" where
  "markPending v hash reminder =
     reminder\<lparr>tts := (tts reminder)\<lparr>voiceId := v, textHash := Some hash,
                                      tts_status := Pending, generatedAt := None\<rparr>\<rparr>"

definition markReady :: "nat list \<Rightarrow> time \<Rightarrow> reminder \<Rightarrow> reminder" where
  "markReady buffer now reminder =
     reminder\<lparr>tts := (tts reminder)\<lparr>
        audio := Some \<lparr>data = buffer, contentType = ''audio/mpeg'', audio_size = length buffer\<rparr>,
        tts_status := Ready, generatedAt := Some now\<rparr>\<rparr>"

definition markFailed :: "reminder \<Rightarrow> reminder" where
  "markFailed reminder = reminder\<lparr>tts := (tts reminder)\<lparr>tts_status := Failed\<rparr>\<rparr>"

text \<open>
  Lines 85 to 117, the \<open>try\<close> and its \<open>catch\<close>: each call of \<open>generateElevenLabsAudio\<close> is
  recorded in \<open>synthLog\<close>. A failed synthesis, or a failed save of the finished audio,
  marks the record failed, saves it and rethrows the first error, unless that save throws
  in turn.
\<close>

definition synthesizeAndStore ::
    "host \<Rightarrow> time \<Rightarrow> string \<Rightarrow> string option \<Rightarrow> reminder \<Rightarrow> world \<Rightarrow> reminder outcome \<times> world" where
  "synthesizeAndStore h now text v pending w =
     (let w1 = w\<lparr>synthLog := synthLog w @ [(text, v)]\<rparr>
      in case synthesize h text v of
           Throws e \<Rightarrow>
             (case save (markFailed pending) w1 of
                (Throws e2, w2) \<Rightarrow> (Throws e2, w2)
              | (Returns _, w2) \<Rightarrow> (Throws e, w2))
         | Returns buffer \<Rightarrow>
             (case save (markReady buffer now pending) w1 of
                (Returns _, w2) \<Rightarrow> (Returns (markReady buffer now pending), w2)
              | (Throws e, w2) \<Rightarrow>
                  (case save (markFailed (markReady buffer now pending)) w2 of
                     (Throws e2, w3) \<Rightarrow> (Throws e2, w3)
                   | (Returns _, w3) \<Rightarrow> (Throws e, w3))))"

text \<open>\<open>ensureReminderTTS\<close>; \<open>now\<close> is the clock reading of \<open>new Date()\<close> for \<open>generatedAt\<close>.\<close>

definition ensureReminderTTS ::
    "host \<Rightarrow> time \<Rightarrow> nat \<Rightarrow> user option \<Rightarrow> string option \<Rightarrow> world \<Rightarrow> reminder outcome \<times> world" where
  "ensureReminderTTS h now reminderId optUser overrideVoiceId w =
     (case findById reminderId w of
        (Throws e, w1) \<Rightarrow> (Throws e, w1)
      | (Returns None, w1) \<Rightarrow> (Throws ''Reminder not found'', w1)
      | (Returns (Some reminder), w1) \<Rightarrow>
          (let text = ttsText reminder optUser;
               v = ttsVoice h reminder overrideVoiceId;
               hash = computeTextHash text v
           in if upToDate hash reminder then (Returns reminder, w1)
              else case save (markPending v hash reminder) w1 of
                     (Throws e, w2) \<Rightarrow> (Throws e, w2)
                   | (Returns _, w2) \<Rightarrow>
                       synthesizeAndStore h now text v (markPending v hash reminder) w2))"

text \<open>What the collection holds as the notification line of document \<open>i\<close>.\<close>

definition storedLine :: "nat \<Rightarrow> world \<Rightarrow> string option option" where
  "storedLine i w = map_option aiNotificationLine (find (\<lambda>r. rid r = i) (reminders w))"

section \<open>Enrichment pipeline (services/aiScheduler.js: processBackgroundAI)\<close>

text \<open>
  Lines 36 to 78: the schedule decision and the path that produced it. \<open>nowAI\<close> and \<open>nowSlot\<close>
  are the two readings \<open>new Date()\<close>. An exception of the AI capability is caught; a rejection
  of \<open>findSmartSlot\<close> becomes \<open>null\<close> (\<open>.catch(() => null)\<close>).
\<close>

definition resolveSchedule ::
    "host \<Rightarrow> time \<Rightarrow> time \<Rightarrow> reminder \<Rightarrow> world \<Rightarrow> (schedule option \<times> string option) \<times> world" where
  "resolveSchedule h nowAI nowSlot rem w =
     (let fromAI = (if geminiLoaded h
                    then (case suggestFullScheduleWithGemini h nowAI (type rem) (title rem)
                                 (case description rem of Some d \<Rightarrow> d | None \<Rightarrow> [])
                          of Returns (Some sch) \<Rightarrow> Some sch
                           | Returns None \<Rightarrow> None
                           | Throws e \<Rightarrow> None)
                    else None)
      in case fromAI of
           Some sch \<Rightarrow> ((Some sch, Some ''gemini''), w)
         | None \<Rightarrow>
             (case findSmartSlot h (uid (user rem)) nowSlot w of
                (Returns (Some suggested), w1) \<Rightarrow>
                  ((Some \<lparr>startDateISO = Some (ISO suggested), s_scheduleType = OneDay,
                           s_scheduleDays = [],
                           s_scheduleTime = \<lparr>minutesBeforeStart = Some 10, fixedTime = None\<rparr>\<rparr>,
                    Some ''fallback''), w1)
              | (Returns None, w1) \<Rightarrow> ((None, None), w1)
              | (Throws e, w1) \<Rightarrow> ((None, None), w1)))"

text \<open>
  Lines 80 to 97: the decision written into the document. The flag returned with it says
  that the document no longer validates against the schema, so that the later \<open>save\<close>
  rejects with a ValidationError: \<open>new Date(schedule.startDateISO)\<close> was an Invalid Date, which
  Mongoose cannot cast, or \<open>minutesBeforeStart\<close> is negative, against the \<open>min: 0\<close> of
  \<open>scheduleTime.minutesBeforeStart\<close> (and of \<open>notificationPreferenceMinutes\<close>, which a one-day
  decision sets to the same number). The other values written pass their validators:
  \<open>scheduleType\<close> is one of the two enum values and \<open>scheduleDays\<close> holds integers from 0 to 6.
\<close>

definition applySchedule :: "host \<Rightarrow> schedule \<Rightarrow> reminder \<Rightarrow> reminder \<times> bool" where
  "applySchedule h sch rem =
     (let d = (case startDateISO sch of Some src \<Rightarrow> newDate h src | None \<Rightarrow> None);
          invalid = ((startDateISO sch \<noteq> None \<and> d = None) \<or>
                     (case minutesBeforeStart (s_scheduleTime sch) of Some m \<Rightarrow> m < 0 | None \<Rightarrow> False));
          rem1 = (case d of Some t \<Rightarrow> rem\<lparr>startDate := Some t\<rparr> | None \<Rightarrow> rem);
          rem2 = rem1\<lparr>scheduleType := Some (s_scheduleType sch),
                      scheduleDays := Some (s_scheduleDays sch),
                      scheduleTime := Some (s_scheduleTime sch)\<rparr>;
          rem3 = (if s_scheduleType sch = OneDay
                  then rem2\<lparr>notificationPreferenceMinutes :=
                         (case minutesBeforeStart (s_scheduleTime sch) of Some m \<Rightarrow> m | None \<Rightarrow> 10)\<rparr>
                  else rem2)
      in (rem3\<lparr>aiSuggested := True\<rparr>, invalid))"

text \<open>Lines 34 to 98: the schedule stage (document, source, validation failure pending).\<close>

definition scheduleStage ::
    "host \<Rightarrow> time \<Rightarrow> time \<Rightarrow> reminder \<Rightarrow> world \<Rightarrow> (reminder \<times> string option \<times> bool) \<times> world" where
  "scheduleStage h nowAI nowSlot rem w =
     (if \<not> isManualSchedule rem \<and> type rem = Task \<and> startDate rem = None
      then (case resolveSchedule h nowAI nowSlot rem w of
              ((Some sch, source), w1) \<Rightarrow>
                (let (rem1, invalid) = applySchedule h sch rem in ((rem1, source, invalid), w1))
            | ((None, source), w1) \<Rightarrow> ((rem, source, False), w1))
      else ((rem, None, False), w))"

text \<open>Lines 100 to 120: the notification line (document, source).\<close>

definition lineStage :: "host \<Rightarrow> user \<Rightarrow> reminder \<Rightarrow> reminder \<times> string option" where
  "lineStage h u rem =
     (let (rem1, lineSource) =
            (if geminiLoaded h
             then (case generateLine h rem u of
                     Returns line \<Rightarrow> if line \<noteq> [] then (rem\<lparr>aiNotificationLine := Some line\<rparr>, Some ''gemini'')
                                    else (rem, None)
                   | Throws e \<Rightarrow> (rem, None))
             else (rem, None))
      in if (case aiNotificationLine rem1 of Some l \<Rightarrow> l = [] | None \<Rightarrow> True)
         then (rem1\<lparr>aiNotificationLine := Some (buildNotificationText rem1 u)\<rparr>,
               (case lineSource of Some src \<Rightarrow> Some src | None \<Rightarrow> Some ''fallback''))
         else (rem1, lineSource))"

record enrichment =
  e_reminder :: reminder
  scheduleSource :: "string option"
  lineSource :: "string option"

text \<open>
  \<open>processBackgroundAI\<close>: \<open>Returns None\<close> is the \<open>return null\<close> for an unknown id. \<open>nowTTS\<close> is
  the clock reading inside the speech stage. The value returned is the document as saved
  before the speech stage, which works on its own copy.
\<close>

definition processBackgroundAI ::
    "host \<Rightarrow> time \<Rightarrow> time \<Rightarrow> time \<Rightarrow> nat \<Rightarrow> user option \<Rightarrow> world \<Rightarrow> enrichment option outcome \<times> world" where
  "processBackgroundAI h nowAI nowSlot nowTTS reminderId optUser w =
     (case findById reminderId w of
        (Throws e, w1) \<Rightarrow> (Throws e, w1)
      | (Returns None, w1) \<Rightarrow> (Returns None, w1)
      | (Returns (Some rem0), w1) \<Rightarrow>
          (case scheduleStage h nowAI nowSlot rem0 w1 of
             ((rem1, schedSrc, invalid), w2) \<Rightarrow>
               (let u = (case optUser of Some x \<Rightarrow> x | None \<Rightarrow> user rem1);
                    (rem2, lineSrc) = lineStage h u rem1
                in if invalid then (Throws ''ValidationError'', w2)
                   else case save rem2 w2 of
                          (Throws e, w3) \<Rightarrow> (Throws e, w3)
                        | (Returns _, w3) \<Rightarrow>
                            (let w4 = (if startDate rem2 \<noteq> None
                                       then snd (ensureReminderTTS h nowTTS (rid rem2) (Some u) None w3)
                                       else w3)
                             in (Returns (Some \<lparr>e_reminder = rem2, scheduleSource = schedSrc,
                                                  lineSource = lineSrc\<rparr>), w4)))))"

section \<open>Location trigger engine (controllers/locationController.js)\<close>

text \<open>
  \<open>haversineMeters\<close>, operation by operation: every product, quotient, sum and difference is
  the host's rounding \<open>fl\<close> of the exact result, in the order in which JavaScript evaluates the
  expression, and the functions of \<open>Math\<close> are the host's. \<open>Math.sqrt\<close> of a negative number is
  NaN, and NaN propagates through \<open>Math.atan2\<close> and the products that follow.
\<close>

definition toRad :: "host \<Rightarrow> real \<Rightarrow> real" where
  "toRad h d = fl h (fl h (d * Math_PI h) / 180)"

definition haversineMeters :: "host \<Rightarrow> real \<Rightarrow> real \<Rightarrow> real \<Rightarrow> real \<Rightarrow> number" where
  "haversineMeters h lat1 lon1 lat2 lon2 =
     (let R = 6371000;
          dLat = toRad h (fl h (lat2 - lat1));
          dLon = toRad h (fl h (lon2 - lon1));
          a = fl h (fl h (Math_sin h (fl h (dLat / 2)) * Math_sin h (fl h (dLat / 2))) +
                    fl h (fl h (fl h (Math_cos h (toRad h lat1) * Math_cos h (toRad h lat2)) *
                                Math_sin h (fl h (dLon / 2))) *
                          Math_sin h (fl h (dLon / 2))))
      in if a < 0 \<or> fl h (1 - a) < 0 then NaN
         else let c = fl h (2 * Math_atan2 h (Math_sqrt h a) (Math_sqrt h (fl h (1 - a))))
              in Num (fl h (R * c)))"

text \<open>
  The functions the runtime approximates. \<open>atan2\<close> is the case table of \<open>Math.atan2\<close> in
  ECMAScript on finite arguments. A host computes exactly when its rounding changes
  nothing and its \<open>Math\<close> functions are these: no runtime does, and what holds of the exact
  host holds of the code up to the rounding of doubles.
\<close>

definition atan2 :: "real \<Rightarrow> real \<Rightarrow> real" where
  "atan2 y x =
     (if 0 < x then arctan (y / x)
      else if x < 0 then (if 0 \<le> y then arctan (y / x) + pi else arctan (y / x) - pi)
      else if 0 < y then pi / 2
      else if y < 0 then - (pi / 2)
      else 0)"

definition exactArithmetic :: "host \<Rightarrow> bool" where
  "exactArithmetic h =
     (fl h = (\<lambda>x. x) \<and> Math_PI h = pi \<and> Math_sin h = sin \<and> Math_cos h = cos \<and>
      Math_sqrt h = sqrt \<and> Math_atan2 h = atan2)"

text \<open>
  The specification's distance: the length of the great-circle arc between two points
  given in degrees, on a sphere of radius 6371000 m; the central angle by the spherical
  law of cosines.
\<close>

definition greatCircleMeters :: "real \<Rightarrow> real \<Rightarrow> real \<Rightarrow> real \<Rightarrow> real" where
  "greatCircleMeters lat1 lon1 lat2 lon2 =
     6371000 * arccos (sin (lat1 * pi / 180) * sin (lat2 * pi / 180) +
                       cos (lat1 * pi / 180) * cos (lat2 * pi / 180) * cos ((lon2 - lon1) * pi / 180))"

text \<open>
  \<open>Math.round\<close>: the nearest integer, a tie going up; it is exact on every double.
  \<open>Math.max\<close> with a finite first argument, and the comparison \<open>a > b\<close>, which is false as soon
  as one side is NaN.
\<close>

fun Math_round :: "number \<Rightarrow> number" where
  "Math_round NaN = NaN"
| "Math_round (Num x) = Num (of_int \<lfloor>x + 1 / 2\<rfloor>)"

fun Math_max :: "real \<Rightarrow> number \<Rightarrow> number" where
  "Math_max a NaN = NaN"
| "Math_max a (Num b) = Num (max a b)"

fun greater :: "number \<Rightarrow> number \<Rightarrow> bool" where
  "greater (Num a) (Num b) = (b < a)"
| "greater a b = False"

text \<open>
  \<open>parseInt(s, 10)\<close>: leading white space, an optional sign, then the longest run of decimal
  digits, read as the double nearest to their value; NaN when no digit is there. The white
  space is that of ECMAScript among the 8-bit characters of a \<open>string\<close>.
\<close>

definition isSpace :: "char \<Rightarrow> bool" where
  "isSpace c = (c \<in> set [CHR '' '', CHR 0x09, CHR 0x0A, CHR 0x0B, CHR 0x0C, CHR 0x0D, CHR 0xA0])"

definition isDigit :: "char \<Rightarrow> bool" where
  "isDigit c = (48 \<le> (of_char c :: nat) \<and> (of_char c :: nat) \<le> 57)"

definition digitsValue :: "string \<Rightarrow> int" where
  "digitsValue ds = foldl (\<lambda>n c. 10 * n + (int (of_char c) - 48)) 0 ds"

definition parseInt :: "host \<Rightarrow> string \<Rightarrow> number" where
  "parseInt h s =
     (let t = dropWhile isSpace s;
          (neg, u) = (case t of
                        c # cs \<Rightarrow> if c = CHR ''-'' then (True, cs)
                                  else if c = CHR ''+'' then (False, cs) else (False, t)
                      | [] \<Rightarrow> (False, t));
          ds = takeWhile isDigit u
      in if ds = [] then NaN
         else Num (fl h (of_int (if neg then - digitsValue ds else digitsValue ds))))"

text \<open>\<open>Math.max(10, parseInt(process.env.LOCATION_MAX_TRIGGER_METERS || '60', 10))\<close>\<close>

definition MAX_METERS :: "host \<Rightarrow> number" where
  "MAX_METERS h =
     Math_max 10 (parseInt h (case orElse (LOCATION_MAX_TRIGGER_METERS h) (Some ''60'') of
                                Some s \<Rightarrow> s | None \<Rightarrow> ''60''))"



definition dayNames :: "string list" where
  "dayNames = [''Sunday'', ''Monday'', ''Tuesday'', ''Wednesday'', ''Thursday'', ''Friday'', ''Saturday'']"

text \<open>\<open>getDay\<close> returns 0 to 6; the \<open>mod\<close> only keeps the index inside the list.\<close>

definition getDayString :: "host \<Rightarrow> time \<Rightarrow> string" where
  "getDayString h date = dayNames ! (getDay h date mod 7)"

text \<open>
  \<open>hasCollisionWithinFiveMin\<close>: the query for the user's Task and Meeting reminders that are
  not completed and start within five minutes of \<open>now\<close>, both bounds included.
\<close>

definition hasCollisionWithinFiveMin :: "nat \<Rightarrow> time \<Rightarrow> world \<Rightarrow> bool outcome \<times> world" where
  "hasCollisionWithinFiveMin usr now w =
     (let start = now - 5 * 60 * 1000;
          end' = now + 5 * 60 * 1000;
          (rejected, w1) = dbCall w
      in if rejected then (Throws ''Reminder.find rejected'', w1)
         else
           let coll = filter (\<lambda>r. uid (user r) = usr \<and> (type r = Task \<or> type r = Meeting) \<and>
                         (case startDate r of None \<Rightarrow> False | Some s \<Rightarrow> start \<le> s \<and> s \<le> end') \<and>
                         \<not> isCompleted r)
                       (reminders w1)
           in (Returns (length coll > 0), w1))"

text \<open>
  The specification's colliding reminder: a Task or Meeting of the user that is not
  completed and starts within five minutes before or after \<open>now\<close>, the bounds included.
\<close>

definition collides :: "nat \<Rightarrow> time \<Rightarrow> reminder \<Rightarrow> bool" where
  "collides usr now c =
     (uid (user c) = usr \<and> (type c = Task \<or> type c = Meeting) \<and> \<not> isCompleted c \<and>
      (\<exists>s. startDate c = Some s \<and> now - 300000 \<le> s \<and> s \<le> now + 300000))"

datatype skip_reason =
    day_mismatch
  | anti_spam_window rat
  | no_keyword
  | places_error string
  | no_places_match
  | too_far "number option" number
  | collision int

record trigger =
  t_title :: string
  body :: "string option"
  bodyFallback :: string
  t_place_id :: "string option"
  t_place_name :: "string option"
  t_place_rating :: "real option"
  distanceMeters :: number
  ttsTextHash :: "digest option"

text \<open>One entry of the result list, with the \<open>reminderId\<close> it reports.\<close>

datatype scan_result = Skipped nat skip_reason | Triggered nat trigger

record scan_request =
  req_user :: nat
  req_lat :: real
  req_lng :: real
  req_radius :: "real option"

text \<open>Lines 73 to 79: the reminder is not for today.\<close>

definition dayMismatch :: "host \<Rightarrow> time \<Rightarrow> reminder \<Rightarrow> bool" where
  "dayMismatch h now r =
     (if (case scheduleDays r of Some ds \<Rightarrow> length ds > 0 | None \<Rightarrow> False)
      then (case scheduleDays r of Some ds \<Rightarrow> int (getDay h now) \<notin> set ds | None \<Rightarrow> False)
      else (case day r of Some d \<Rightarrow> d \<noteq> [] \<and> d \<noteq> getDayString h now | None \<Rightarrow> False))"

text \<open>Lines 80 to 84: the minutes since the last trigger when they are fewer than 90.\<close>

definition antiSpam :: "time \<Rightarrow> reminder \<Rightarrow> rat option" where
  "antiSpam now r =
     (case lastTriggeredAt r of
        None \<Rightarrow> None
      | Some t \<Rightarrow> (let deltaMin = of_int (now - t) / 60000
                   in if deltaMin < 90 then Some deltaMin else None))"

text \<open>
  Lines 98 to 104, the distance gate: \<open>Inr\<close> is the rounded distance of an accepted place,
  \<open>Inl\<close> the skip. \<open>dist\<close> is null (\<open>None\<close>) when the place has no numeric coordinates, and a
  number otherwise: NaN is a number to \<open>typeof\<close>, and no comparison with NaN holds.
\<close>

definition distanceGate :: "host \<Rightarrow> scan_request \<Rightarrow> place \<Rightarrow> skip_reason + number" where
  "distanceGate h req p =
     (let dist = (case (p_lat p, p_lng p) of
                    (Some plat, Some plng) \<Rightarrow>
                      Some (Math_round (haversineMeters h (req_lat req) (req_lng req) plat plng))
                  | _ \<Rightarrow> None)
      in case dist of
           None \<Rightarrow> Inl (too_far dist (MAX_METERS h))
         | Some d \<Rightarrow>
             if greater d (MAX_METERS h) then Inl (too_far dist (MAX_METERS h))
             else Inr d)"

text \<open>
  Lines 72 to 104: the filters before the collision check. \<open>Inl\<close> is the \<open>continue\<close> with the
  pushed skip reason, \<open>Inr\<close> the resolved place with its rounded distance.
\<close>

definition filters :: "host \<Rightarrow> scan_request \<Rightarrow> time \<Rightarrow> reminder \<Rightarrow> skip_reason + (place \<times> number)" where
  "filters h req now r =
     (if dayMismatch h now r then Inl day_mismatch
      else case antiSpam now r of
        Some deltaMin \<Rightarrow> Inl (anti_spam_window deltaMin)
      | None \<Rightarrow>
          (let keyword = title r
           in if keyword = [] then Inl no_keyword
              else case nearbyBestPlace h (req_lat req) (req_lng req)
                          (case req_radius req of None \<Rightarrow> 500 | Some x \<Rightarrow> if x = 0 then 500 else x)
                          keyword
                of Throws e \<Rightarrow> Inl (places_error e)
                 | Returns None \<Rightarrow> Inl no_places_match
                 | Returns (Some p) \<Rightarrow>
                     (case distanceGate h req p of
                        Inl reason \<Rightarrow> Inl reason
                      | Inr d \<Rightarrow> Inr (p, d))))"

text \<open>The \<open>reminderId\<close> an entry of the result list reports.\<close>

fun resultId :: "scan_result \<Rightarrow> nat" where
  "resultId (Skipped i reason) = i"
| "resultId (Triggered i t) = i"

text \<open>
  Lines 144 to 150: the poll, entered only when a call of \<open>ensureReminderTTS\<close> returned a
  document without \<open>textHash\<close>; \<open>n\<close> bounds its iterations. An exception leaves the loop
  and the surrounding \<open>try\<close> with \<open>textHash\<close> still null.
\<close>

fun pollTTS :: "host \<Rightarrow> time \<Rightarrow> nat \<Rightarrow> user \<Rightarrow> nat \<Rightarrow> world \<Rightarrow> digest option \<times> world" where
  "pollTTS h now i u 0 w = (None, w)"
| "pollTTS h now i u (Suc n) w =
     (case ensureReminderTTS h now i (Some u) None w of
        (Throws e, w1) \<Rightarrow> (None, w1)
      | (Returns again, w1) \<Rightarrow>
          (case textHash (tts again) of
             Some x \<Rightarrow> (Some x, w1)
           | None \<Rightarrow> pollTTS h now i u n w1))"

text \<open>\<open>Reminder.findByIdAndUpdate(id, {$set: update}, {new: true})\<close> with the trigger's update.\<close>

definition findByIdAndUpdate ::
    "nat \<Rightarrow> (reminder \<Rightarrow> reminder) \<Rightarrow> world \<Rightarrow> reminder option outcome \<times> world" where
  "findByIdAndUpdate i upd w =
     (let (rejected, w1) = dbCall w
      in if rejected then (Throws ''findByIdAndUpdate rejected'', w1)
         else case find (\<lambda>r. rid r = i) (reminders w1) of
                None \<Rightarrow> (Returns None, w1)
              | Some r \<Rightarrow>
                  (Returns (Some (upd r)),
                   w1\<lparr>reminders := map (\<lambda>x. if rid x = i then upd x else x) (reminders w1)\<rparr>))"

definition createNotification :: "notification \<Rightarrow> world \<Rightarrow> unit outcome \<times> world" where
  "createNotification n w =
     (let (rejected, w1) = dbCall w
      in if rejected then (Throws ''Notification.create rejected'', w1)
         else (Returns (), w1\<lparr>notifications := notifications w1 @ [n]\<rparr>))"

text \<open>Lines 114 to 124: the \<open>update\<close> object, as the change \<open>$set\<close> makes to a document.\<close>

definition triggerUpdate :: "time \<Rightarrow> reminder \<Rightarrow> place \<Rightarrow> reminder \<Rightarrow> reminder" where
  "triggerUpdate now r p x =
     x\<lparr>lastTriggeredAt := Some now,
       status := (if status r = Expired then Expired else Active),
       triggeredLocation := Some \<lparr>tl_lat = p_lat p, tl_lng = p_lng p,
          placeId = place_id p, tl_name = p_name p, tl_rating = p_rating p\<rparr>\<rparr>"

text \<open>
  Lines 113 to 175: the trigger of a candidate that passed every gate. Line generation, the
  save of the line, the speech stage and the notification record are each inside a \<open>try\<close>;
  the update itself is not, and a document that is gone makes line 167 throw a TypeError
  (the three \<open>try\<close> blocks before it catch theirs before any call is made). The clock
  reading of the speech stage is taken to be the \<open>now\<close> of the scan.
\<close>

definition fire ::
    "host \<Rightarrow> scan_request \<Rightarrow> time \<Rightarrow> reminder \<Rightarrow> place \<Rightarrow> number \<Rightarrow> world \<Rightarrow> scan_result outcome \<times> world" where
  "fire h req now r p dist' w =
     (case findByIdAndUpdate (rid r) (triggerUpdate now r p) w of
        (Throws e, w1) \<Rightarrow> (Throws e, w1)
      | (Returns None, w1) \<Rightarrow> (Throws ''TypeError: Cannot read properties of null'', w1)
      | (Returns (Some updated0), w1) \<Rightarrow>
          (let (updated, w2) =
                 (if geminiLoaded h
                  then (case generateLine h updated0 (user updated0) of
                          Returns line \<Rightarrow>
                            if line \<noteq> []
                            then (let upd1 = updated0\<lparr>aiNotificationLine := Some line\<rparr>
                                  in (upd1, snd (save upd1 w1)))
                            else (updated0, w1)
                        | Throws e \<Rightarrow> (updated0, w1))
                  else (updated0, w1));
               (hash, w3) =
                 (case ensureReminderTTS h now (rid updated) (Some (user updated)) None w2 of
                    (Throws e, w') \<Rightarrow> (None, w')
                  | (Returns ensured, w') \<Rightarrow>
                      (case textHash (tts ensured) of
                         Some x \<Rightarrow> (Some x, w')
                       | None \<Rightarrow> pollTTS h now (rid updated) (user updated) (pollBudget h) w'));
               line = (case aiNotificationLine updated of
                         Some l \<Rightarrow> if l \<noteq> [] then Some l else None
                       | None \<Rightarrow> None);
               w4 = snd (createNotification
                      \<lparr>n_userId = req_user req, n_type = ''location'',
                       n_message = (case line of Some l \<Rightarrow> l
                                    | None \<Rightarrow> ''You're near a place for '' @ title updated @ ''.''),
                       n_isRead = False, n_reminderId = rid updated\<rparr> w3)
           in (Returns (Triggered (rid updated)
                 \<lparr>t_title = title updated, body = line,
                  bodyFallback = ''Reminder: You're near a place for '' @ title updated @ ''.'',
                  t_place_id = place_id p, t_place_name = p_name p, t_place_rating = p_rating p,
                  distanceMeters = dist', ttsTextHash = hash\<rparr>), w4)))"

text \<open>Lines 72 to 176: the loop body for one candidate; \<open>Throws\<close> leaves the loop.\<close>

definition scanOne :: "host \<Rightarrow> scan_request \<Rightarrow> time \<Rightarrow> reminder \<Rightarrow> world \<Rightarrow> scan_result outcome \<times> world" where
  "scanOne h req now r w =
     (case filters h req now r of
        Inl reason \<Rightarrow> (Returns (Skipped (rid r) reason), w)
      | Inr (p, dist') \<Rightarrow>
          (case hasCollisionWithinFiveMin (req_user req) now w of
             (Throws e, w1) \<Rightarrow> (Throws e, w1)
           | (Returns True, w1) \<Rightarrow> (Returns (Skipped (rid r) (collision (6 * 60 * 1000))), w1)
           | (Returns False, w1) \<Rightarrow> fire h req now r p dist' w1))"

fun scanLoop ::
    "host \<Rightarrow> scan_request \<Rightarrow> time \<Rightarrow> reminder list \<Rightarrow> scan_result list \<Rightarrow> world \<Rightarrow> scan_result list outcome \<times> world" where
  "scanLoop h req now [] out w = (Returns out, w)"
| "scanLoop h req now (r # rs) out w =
     (case scanOne h req now r w of
        (Throws e, w1) \<Rightarrow> (Throws e, w1)
      | (Returns res, w1) \<Rightarrow> scanLoop h req now rs (out @ [res]) w1)"

text \<open>The candidates of a scan: lines 60 to 65.\<close>

definition candidate :: "scan_request \<Rightarrow> reminder \<Rightarrow> bool" where
  "candidate req r =
     (uid (user r) = req_user req \<and> type r = Location \<and> \<not> isCompleted r \<and> status r \<noteq> Completed)"

text \<open>
  \<open>scanAndTrigger\<close>: \<open>Returns out\<close> is the response \<open>{success: true, results: out}\<close>, \<open>Throws\<close>
  the status 500 of the outer \<open>catch\<close>, sent without any result list.
\<close>

definition scanAndTrigger :: "host \<Rightarrow> scan_request \<Rightarrow> time \<Rightarrow> world \<Rightarrow> scan_result list outcome \<times> world" where
  "scanAndTrigger h req now w =
     (let (rejected, w1) = dbCall w
      in if rejected then (Throws ''Reminder.find rejected'', w1)
         else
           let candidates = filter (candidate req) (reminders w1)
           in scanLoop h req now candidates [] w1)"

text \<open>
  Between two states of the world: the collection holds the same documents by id, in the
  same order, and a database that had no rejection left has none left.
\<close>

definition steady :: "world \<Rightarrow> world \<Rightarrow> bool" where
  "steady w w' = (map rid (reminders w') = map rid (reminders w) \<and> (faults w = [] \<longrightarrow> faults w' = []))"

text \<open>What the collision query reads of a document, with the document's id.\<close>

definition slot :: "reminder \<Rightarrow> nat \<times> nat \<times> reminder_type \<times> time option \<times> bool" where
  "slot r = (rid r, uid (user r), type r, startDate r, isCompleted r)"

section \<open>Example inputs\<close>

text \<open>A host in the UTC time zone: 1 January 1970 was a Thursday.\<close>

definition getHoursUTC :: "time \<Rightarrow> int" where
  "getHoursUTC t = (t div 3600000) mod 24"

definition getDayUTC :: "time \<Rightarrow> nat" where
  "getDayUTC t = nat ((t div 86400000 + 4) mod 7)"

text \<open>A document as \<open>Reminder.create\<close> stores it with the schema's defaults.\<close>

definition newReminder :: "nat \<Rightarrow> user \<Rightarrow> reminder_type \<Rightarrow> string \<Rightarrow> reminder" where
  "newReminder i u k ttl =
     \<lparr>rid = i, user = u, type = k, title = ttl, description = None, startDate = None,
      location_name = None, day = None, status = Active, lastTriggeredAt = None,
      triggeredLocation = None, isManualSchedule = False, scheduleType = None,
      scheduleTime = None, scheduleDays = None, aiSuggested = False, aiNotificationLine = None,
      notificationPreferenceMinutes = 10, isCompleted = False,
      tts = \<lparr>voiceId = None, textHash = None, audio = None, tts_status = Pending,
             generatedAt = None\<rparr>\<rparr>"

definition alice :: user where
  "alice = \<lparr>uid = 1, fullname = Some ''Alice Smith''\<rparr>"

text \<open>Alice has a meeting on 1 January 1970 at 09:00 UTC.\<close>

definition standup :: reminder where
  "standup = (newReminder 1 alice Meeting ''Standup'')\<lparr>startDate := Some 32400000,
     isManualSchedule := True, scheduleType := Some OneDay\<rparr>"

definition meetingWorld :: world where
  "meetingWorld = \<lparr>reminders = [standup], notifications = [], faults = [], synthLog = []\<rparr>"

text \<open>
  A host in UTC where the AI module did not load, speech synthesis answers with three bytes
  and the places lookup finds nothing; its arithmetic is the exact one.
\<close>

definition utcHost :: host where
  "utcHost =
     \<lparr>JSON_parse = (\<lambda>s. None), trim = (\<lambda>s. s), Date_parse = (\<lambda>v. None),
      getHours = getHoursUTC, getDay = getDayUTC,
      ELEVENLABS_DEFAULT_VOICE_ID = Some ''voice1'', LOCATION_MAX_TRIGGER_METERS = None,
      geminiLoaded = False,
      generateSchedule = (\<lambda>k t d n. Throws ''Gemini SDK not installed''),
      generateLine = (\<lambda>r u. Throws ''Gemini SDK not installed''),
      synthesize = (\<lambda>t v. Returns [73, 68, 51]),
      nearbyBestPlace = (\<lambda>lat lng rad kw. Returns None),
      pollBudget = 8,
      fl = (\<lambda>x. x), Math_PI = pi, Math_sin = sin, Math_cos = cos, Math_sqrt = sqrt,
      Math_atan2 = atan2\<rparr>"

text \<open>
  The same host with the AI module loaded and every AI call throwing; and an unscheduled
  task of Alice's beside her meeting, at 08:00 UTC on 1 January 1970.
\<close>

definition failingAI :: host where
  "failingAI = utcHost\<lparr>geminiLoaded := True\<rparr>"

definition buyMilk :: reminder where
  "buyMilk = newReminder 2 alice Task ''Buy milk''"

definition taskWorld :: world where
  "taskWorld = \<lparr>reminders = [standup, buyMilk], notifications = [], faults = [], synthLog = []\<rparr>"

text \<open>
  A host whose AI answers, on 1 January 1970 at 00:00 UTC, with a one-day schedule for
  1 February 1970, 31 days later: \<open>JSON.parse\<close> and the \<open>Date\<close> constructor are given at the
  values this reply needs.
\<close>

definition farReply :: string where
  "farReply = ''{\"startDateISO\":\"1970-02-01T00:00:00Z\",\"scheduleType\":\"one-day\",\"scheduleDays\":[],\"scheduleTime\":{\"minutesBeforeStart\":15,\"fixedTime\":null}}''"

definition farObj :: json where
  "farObj = JObj [(''startDateISO'', JStr ''1970-02-01T00:00:00Z''),
                  (''scheduleType'', JStr ''one-day''),
                  (''scheduleDays'', JArr []),
                  (''scheduleTime'', JObj [(''minutesBeforeStart'', JNum 15), (''fixedTime'', JNull)])]"

definition farParse :: "string \<Rightarrow> json option" where
  "farParse s = (if s = farReply then Some farObj else None)"

definition farDate :: "json \<Rightarrow> time option" where
  "farDate v = (if v = JStr ''1970-02-01T00:00:00Z'' then Some 2678400000 else None)"

definition farHost :: host where
  "farHost = utcHost\<lparr>JSON_parse := farParse, Date_parse := farDate, geminiLoaded := True,
                       generateSchedule := (\<lambda>k t d n. Returns farReply)\<rparr>"

text \<open>A task of Alice's that already carries a notification line and a start time.\<close>

definition lined :: reminder where
  "lined = (newReminder 3 alice Task ''Call mum'')\<lparr>startDate := Some 36000000,
     aiNotificationLine := Some ''Alice, time to call mum!''\<rparr>"

definition linedWorld :: world where
  "linedWorld = \<lparr>reminders = [lined], notifications = [], faults = [], synthLog = []\<rparr>"

text \<open>
  A location reminder of Alice's, without start time, whose speech is ready for its
  current line; and a host whose AI writes a new line for every reminder.
\<close>

definition pharmacy :: reminder where
  "pharmacy = (newReminder 4 alice Location ''pharmacy'')\<lparr>
     aiNotificationLine := Some ''Old line'',
     tts := \<lparr>voiceId = Some ''voice1'', textHash = Some (Sha256 ''voice1::Old line''),
             audio = Some \<lparr>data = [73, 68, 51], contentType = ''audio/mpeg'', audio_size = 3\<rparr>,
             tts_status = Ready, generatedAt = Some 0\<rparr>\<rparr>"

definition pharmacyWorld :: world where
  "pharmacyWorld = \<lparr>reminders = [pharmacy], notifications = [], faults = [], synthLog = []\<rparr>"

definition liningAI :: host where
  "liningAI = utcHost\<lparr>geminiLoaded := True, generateLine := (\<lambda>r u. Returns ''New line'')\<rparr>"

text \<open>The same task after a first run of the speech stage at time 5, and the world it leaves.\<close>

definition spoken :: reminder where
  "spoken = lined\<lparr>tts := \<lparr>voiceId = Some ''voice1'',
                textHash = Some (Sha256 ''voice1::Alice, time to call mum!''),
                audio = Some \<lparr>data = [73, 68, 51], contentType = ''audio/mpeg'', audio_size = 3\<rparr>,
                tts_status = Ready, generatedAt = Some 5\<rparr>\<rparr>"

definition spokenWorld :: world where
  "spokenWorld = \<lparr>reminders = [spoken], notifications = [], faults = [],
                   synthLog = [(''Alice, time to call mum!'', Some ''voice1'')]\<rparr>"

text \<open>A host whose speech synthesis fails.\<close>

definition muteHost :: host where
  "muteHost = utcHost\<lparr>synthesize := (\<lambda>t v. Throws ''TTS generation failed (401)'')\<rparr>"

text \<open>
  A host whose speech synthesis answers with an empty body, and the task as a run of the
  speech stage at time 5 leaves it there.
\<close>

definition silentHost :: host where
  "silentHost = utcHost\<lparr>synthesize := (\<lambda>t v. Returns [])\<rparr>"

definition hushed :: reminder where
  "hushed = lined\<lparr>tts := \<lparr>voiceId = Some ''voice1'',
                textHash = Some (Sha256 ''voice1::Alice, time to call mum!''),
                audio = Some \<lparr>data = [], contentType = ''audio/mpeg'', audio_size = 0\<rparr>,
                tts_status = Ready, generatedAt = Some 5\<rparr>\<rparr>"

text \<open>
  A scan by Alice at latitude 0, longitude 0, and a place on the same meridian \<open>m\<close> metres
  to the north.
\<close>

definition origin :: scan_request where
  "origin = \<lparr>req_user = 1, req_lat = 0, req_lng = 0, req_radius = None\<rparr>"

definition northOf :: "real \<Rightarrow> place" where
  "northOf m = \<lparr>place_id = Some ''ChIJ1'', p_name = Some ''Corner Pharmacy'', p_rating = Some 4,
                 p_lat = Some (m * 180 / (6371000 * pi)), p_lng = Some 0\<rparr>"


definition wideHost :: host where
  "wideHost = utcHost\<lparr>LOCATION_MAX_TRIGGER_METERS := Some ''100''\<rparr>"

definition garbledHost :: host where
  "garbledHost = utcHost\<lparr>LOCATION_MAX_TRIGGER_METERS := Some ''abc''\<rparr>"

text \<open>
  Tuesday 6 January 1970, 10:00 UTC. Alice's location reminders: one for Monday, Wednesday
  and Friday and one for every day, both triggered ten minutes earlier; one never
  triggered; and one triggered 90 minutes earlier to the millisecond. A host whose places
  lookup finds the pharmacy 60 metres north.
\<close>

definition tuesday :: time where
  "tuesday = 468000000"

definition gym :: reminder where
  "gym = (newReminder 5 alice Location ''gym'')\<lparr>scheduleDays := Some [1, 3, 5],
     lastTriggeredAt := Some 467400000\<rparr>"

definition cafe :: reminder where
  "cafe = (newReminder 7 alice Location ''cafe'')\<lparr>lastTriggeredAt := Some 467400000\<rparr>"

definition shop :: reminder where
  "shop = newReminder 8 alice Location ''pharmacy''"

definition library :: reminder where
  "library = (newReminder 9 alice Location ''library'')\<lparr>lastTriggeredAt := Some 462600000\<rparr>"

definition nearHost :: host where
  "nearHost = utcHost\<lparr>nearbyBestPlace := (\<lambda>lat lng rad kw. Returns (Some (northOf 60)))\<rparr>"

text \<open>A task of Alice's that starts \<open>d\<close> milliseconds after that time.\<close>

definition dueIn :: "int \<Rightarrow> reminder" where
  "dueIn d = (newReminder 6 alice Task ''Pay rent'')\<lparr>startDate := Some (468000000 + d),
     isManualSchedule := True, scheduleType := Some OneDay\<rparr>"

definition worldOf :: "reminder list \<Rightarrow> world" where
  "worldOf rs = \<lparr>reminders = rs, notifications = [], faults = [], synthLog = []\<rparr>"

text \<open>
  Two candidates of Alice's in a world whose second database call, the first collision
  query, rejects.
\<close>

definition flakyWorld :: world where
  "flakyWorld = \<lparr>reminders = [shop, cafe], notifications = [], faults = [False, True], synthLog = []\<rparr>"

text \<open>
  The same candidates in a world where the initial query, the first collision query and
  the first update succeed and the next two database calls, which the speech stage and
  the notification record make, reject; and in a world where the first update rejects.
\<close>

definition patchyWorld :: world where
  "patchyWorld = \<lparr>reminders = [shop, cafe], notifications = [],
                    faults = [False, False, False, True, True], synthLog = []\<rparr>"

definition brokenWorld :: world where
  "brokenWorld = \<lparr>reminders = [shop, cafe], notifications = [],
                    faults = [False, False, True], synthLog = []\<rparr>"

text \<open>The pharmacy reminder as the trigger at that time leaves it.\<close>

definition visited :: reminder where
  "visited = shop\<lparr>lastTriggeredAt := Some 468000000, status := Active,
     triggeredLocation := Some \<lparr>tl_lat = Some (60 * 180 / (6371000 * pi)), tl_lng = Some 0,
        placeId = Some ''ChIJ1'', tl_name = Some ''Corner Pharmacy'', tl_rating = Some 4\<rparr>\<rparr>"

text \<open>A host whose places lookup throws.\<close>

definition lostHost :: host where
  "lostHost = utcHost\<lparr>nearbyBestPlace :=
     (\<lambda>lat lng rad kw. Throws ''GOOGLE_MAPS_API_KEY not configured'')\<rparr>"

section \<open>The heuristic slot finder stays inside its window\<close>

lemma slotLoop_Some:
  "slotLoop g busy h d = Some t \<Longrightarrow>
     d \<le> t \<and> t \<le> h \<and> 9 \<le> g t \<and> g t < 18 \<and> t \<notin> set busy \<and>
     (\<exists>k. t = d + int k * oneHour \<and>
        (\<forall>j<k. \<not> (9 \<le> g (d + int j * oneHour) \<and> g (d + int j * oneHour) < 18 \<and> d + int j * oneHour \<notin> set busy)))"
proof (induction g busy h d rule: slotLoop.induct)
  case (1 g busy h d)
  show ?case
  proof (cases "d \<le> h")
    case False
    with "1.prems" show ?thesis by (simp add: slotLoop.simps)
  next
    case le: True
    show ?thesis
    proof (cases "9 \<le> g d \<and> g d < 18 \<and> d \<notin> set busy")
      case True
      with le "1.prems" have "t = d" by (auto simp: slotLoop.simps [of g busy h d])
      with True le show ?thesis by (auto intro: exI [of _ 0])
    next
      case False
      with le "1.prems" have rec: "slotLoop g busy h (d + oneHour) = Some t"
        by (auto simp: slotLoop.simps [of g busy h d] split: if_splits)
      have ih: "d + oneHour \<le> t \<and> t \<le> h \<and> 9 \<le> g t \<and> g t < 18 \<and> t \<notin> set busy \<and>
        (\<exists>k. t = d + oneHour + int k * oneHour \<and>
          (\<forall>j<k. \<not> (9 \<le> g (d + oneHour + int j * oneHour) \<and> g (d + oneHour + int j * oneHour) < 18
             \<and> d + oneHour + int j * oneHour \<notin> set busy)))"
      proof (cases "g d < 9 \<or> g d \<ge> 18")
        case True
        then show ?thesis using "1.IH"(1) [OF le True rec] by simp
      next
        case F2: False
        with False have "\<not> d \<notin> set busy" by auto
        then show ?thesis using "1.IH"(2) [OF le F2 _ rec] by simp
      qed
      then obtain k where k: "t = d + oneHour + int k * oneHour"
        and first: "\<forall>j<k. \<not> (9 \<le> g (d + oneHour + int j * oneHour) \<and> g (d + oneHour + int j * oneHour) < 18
             \<and> d + oneHour + int j * oneHour \<notin> set busy)" by blast
      have "t = d + int (Suc k) * oneHour" using k by (simp add: algebra_simps)
      moreover have "\<forall>j<Suc k. \<not> (9 \<le> g (d + int j * oneHour) \<and> g (d + int j * oneHour) < 18 \<and> d + int j * oneHour \<notin> set busy)"
      proof (intro allI impI)
        fix j assume j: "j < Suc k"
        show "\<not> (9 \<le> g (d + int j * oneHour) \<and> g (d + int j * oneHour) < 18 \<and> d + int j * oneHour \<notin> set busy)"
        proof (cases j)
          case 0
          with False show ?thesis by simp
        next
          case (Suc i)
          with j have "i < k" by simp
          with first have nf: "\<not> (9 \<le> g (d + oneHour + int i * oneHour) \<and> g (d + oneHour + int i * oneHour) < 18
             \<and> d + oneHour + int i * oneHour \<notin> set busy)" by blast
          have e: "d + int j * oneHour = d + oneHour + int i * oneHour"
            using Suc by (simp add: algebra_simps)
          show ?thesis unfolding e by (rule nf)
        qed
      qed
      moreover have "d \<le> t" using ih by (simp add: oneHour_def)
      ultimately show ?thesis using ih by blast
    qed
  qed
qed

lemma slotLoop_None:
  "slotLoop g busy h d = None \<Longrightarrow> d + int k * oneHour \<le> h \<Longrightarrow>
     \<not> (9 \<le> g (d + int k * oneHour) \<and> g (d + int k * oneHour) < 18 \<and> d + int k * oneHour \<notin> set busy)"
proof (induction g busy h d arbitrary: k rule: slotLoop.induct)
  case (1 g busy h d)
  have le: "d \<le> h" using "1.prems"(2) by (smt (verit) oneHour_def of_nat_0_le_iff mult_nonneg_nonneg)
  show ?case
  proof (cases k)
    case 0
    with "1.prems"(1) le show ?thesis
      by (auto simp: slotLoop.simps [of g busy h d] split: if_splits)
  next
    case (Suc i)
    have eq: "d + int k * oneHour = d + oneHour + int i * oneHour"
      using Suc by (simp add: algebra_simps)
    show ?thesis
    proof (cases "g d < 9 \<or> g d \<ge> 18")
      case True
      with le "1.prems"(1) have rec: "slotLoop g busy h (d + oneHour) = None"
        by (auto simp: slotLoop.simps [of g busy h d])
      show ?thesis using "1.IH"(1) [OF le True rec, of i] "1.prems"(2) unfolding eq by blast
    next
      case False
      with le "1.prems"(1) have b: "\<not> d \<notin> set busy" and rec: "slotLoop g busy h (d + oneHour) = None"
        by (auto simp: slotLoop.simps [of g busy h d] split: if_splits)
      show ?thesis using "1.IH"(2) [OF le False b rec, of i] "1.prems"(2) unfolding eq by blast
    qed
  qed
qed

lemma dbCall_reminders: "reminders (snd (dbCall w)) = reminders w"
  by (simp add: dbCall_def split: list.split)

lemma findSmartSlot_first:
  assumes "findSmartSlot h usr now w = (Returns (Some t), w')"
  shows "\<exists>k. t = now + (1 + int k) * 3600000 \<and> t \<le> now + 604800000 \<and> freeSlot h usr w t \<and>
           (\<forall>j<k. \<not> freeSlot h usr w (now + (1 + int j) * 3600000))"
proof -
  define busy where "busy = List.map_filter startDate (filter (\<lambda>e. uid (user e) = usr \<and>
                    (case startDate e of None \<Rightarrow> False | Some s \<Rightarrow> now \<le> s \<and> s \<le> now + sevenDays))
                  (reminders w))"
  have busy_iff: "x \<in> set busy \<longleftrightarrow>
      (\<exists>r \<in> set (reminders w). uid (user r) = usr \<and> startDate r = Some x) \<and> now \<le> x \<and> x \<le> now + sevenDays" for x
    by (force simp: busy_def List.map_filter_def image_iff split: option.splits)
  from assms have sl: "slotLoop (getHours h) busy (now + sevenDays) (now + oneHour) = Some t"
    using dbCall_reminders [of w]
    by (auto simp: findSmartSlot_def Let_def busy_def split: prod.splits if_splits)
  from slotLoop_Some [OF sl] obtain k where
      b: "now + oneHour \<le> t" "t \<le> now + sevenDays" "9 \<le> getHours h t" "getHours h t < 18" "t \<notin> set busy"
      and k: "t = now + oneHour + int k * oneHour"
      and first: "\<forall>j<k. \<not> (9 \<le> getHours h (now + oneHour + int j * oneHour) \<and>
                   getHours h (now + oneHour + int j * oneHour) < 18 \<and>
                   now + oneHour + int j * oneHour \<notin> set busy)"
    by blast
  have t: "t = now + (1 + int k) * 3600000" using k by (simp add: oneHour_def algebra_simps)
  have free: "freeSlot h usr w t"
    using b busy_iff [of t] by (auto simp: freeSlot_def oneHour_def)
  have "\<not> freeSlot h usr w (now + (1 + int j) * 3600000)" if "j < k" for j
  proof -
    have e: "now + oneHour + int j * oneHour = now + (1 + int j) * 3600000"
      by (simp add: oneHour_def algebra_simps)
    have "int j < int k" using that by simp
    then have le: "now + (1 + int j) * 3600000 \<le> t" unfolding t by simp
    from first that have "\<not> (9 \<le> getHours h (now + oneHour + int j * oneHour) \<and>
                   getHours h (now + oneHour + int j * oneHour) < 18 \<and>
                   now + oneHour + int j * oneHour \<notin> set busy)" by blast
    then show ?thesis
      unfolding e using busy_iff [of "now + (1 + int j) * 3600000"] le b(2)
      by (auto simp: freeSlot_def)
  qed
  with t free b(2) show ?thesis by (auto simp: sevenDays_def)
qed

lemma findSmartSlot_none:
  assumes "findSmartSlot h usr now w = (Returns None, w')"
    and "now + (1 + int k) * 3600000 \<le> now + 604800000"
  shows "\<not> freeSlot h usr w (now + (1 + int k) * 3600000)"
proof -
  define busy where "busy = List.map_filter startDate (filter (\<lambda>e. uid (user e) = usr \<and>
                    (case startDate e of None \<Rightarrow> False | Some s \<Rightarrow> now \<le> s \<and> s \<le> now + sevenDays))
                  (reminders w))"
  have busy_iff: "x \<in> set busy \<longleftrightarrow>
      (\<exists>r \<in> set (reminders w). uid (user r) = usr \<and> startDate r = Some x) \<and> now \<le> x \<and> x \<le> now + sevenDays" for x
    by (force simp: busy_def List.map_filter_def image_iff split: option.splits)
  from assms(1) have sl: "slotLoop (getHours h) busy (now + sevenDays) (now + oneHour) = None"
    using dbCall_reminders [of w]
    by (auto simp: findSmartSlot_def Let_def busy_def split: prod.splits if_splits)
  have e: "now + oneHour + int k * oneHour = now + (1 + int k) * 3600000"
    by (simp add: oneHour_def algebra_simps)
  have "now + oneHour + int k * oneHour \<le> now + sevenDays"
    unfolding e using assms(2) by (simp add: sevenDays_def)
  from slotLoop_None [OF sl this] show ?thesis
    unfolding e using busy_iff [of "now + (1 + int k) * 3600000"] assms(2)
    by (auto simp: freeSlot_def sevenDays_def)
qed

lemma findSmartSlot_bounds:
  assumes "findSmartSlot h usr now w = (Returns (Some t), w')"
  shows "now + 3600000 \<le> t \<and> t \<le> now + 604800000 \<and> 9 \<le> getHours h t \<and> getHours h t < 18 \<and>
         (\<forall>r \<in> set (reminders w). uid (user r) = usr \<longrightarrow> startDate r \<noteq> Some t)"
proof -
  from findSmartSlot_first [OF assms] obtain k where
    k: "t = now + (1 + int k) * 3600000" "t \<le> now + 604800000" "freeSlot h usr w t" by blast
  have "now + 3600000 \<le> t" unfolding k(1) by simp
  with k(2,3) show ?thesis by (auto simp: freeSlot_def)
qed

lemma findSmartSlot_returns:
  "\<not> fst (dbCall w) \<Longrightarrow> \<exists>r. fst (findSmartSlot h usr now w) = Returns r"
  by (cases "dbCall w") (simp add: findSmartSlot_def Let_def)

text \<open>
  C3. For every user and every current time, \<open>findSmartSlot\<close> returns, whenever its query is
  answered, either null or a time; a time it returns lies between one hour and seven days
  after \<open>now\<close>, has its local hour in the window from 9 (included) to 18 (excluded), and is
  not the start time of any reminder of that user.
\<close>

theorem findSmartSlot_horizon:
  "(findSmartSlot h usr now w = (Returns (Some t), w') \<longrightarrow>
      now + 3600000 \<le> t \<and> t \<le> now + 604800000 \<and> 9 \<le> getHours h t \<and> getHours h t < 18 \<and>
      (\<forall>r \<in> set (reminders w). uid (user r) = usr \<longrightarrow> startDate r \<noteq> Some t)) \<and>
   (\<not> fst (dbCall w) \<longrightarrow> (\<exists>r. fst (findSmartSlot h usr now w) = Returns r))"
  using findSmartSlot_bounds findSmartSlot_returns by blast

theorem findSmartSlot_horizon_witness:
  "findSmartSlot utcHost 1 28800000 meetingWorld = (Returns (Some 36000000), meetingWorld) \<and>
   \<not> fst (dbCall meetingWorld) \<and>
   28800000 + 3600000 \<le> (36000000::int) \<and> (36000000::int) \<le> 28800000 + 604800000 \<and>
   9 \<le> getHours utcHost 36000000 \<and> getHours utcHost 36000000 < 18 \<and>
   uid (user standup) = 1 \<and> startDate standup \<noteq> Some 36000000"
proof -
  have run: "findSmartSlot utcHost 1 28800000 meetingWorld = (Returns (Some 36000000), meetingWorld)"
    by (simp add: findSmartSlot_def dbCall_def meetingWorld_def standup_def newReminder_def alice_def
         utcHost_def getHoursUTC_def oneHour_def sevenDays_def slotLoop.simps)
  have d: "\<not> fst (dbCall meetingWorld)" by (simp add: dbCall_def meetingWorld_def)
  from findSmartSlot_horizon [of utcHost 1 28800000 meetingWorld 36000000 meetingWorld] run d
  show ?thesis
    by (simp add: meetingWorld_def standup_def newReminder_def alice_def)
qed

section \<open>The resolver falls back to the heuristic\<close>

lemma resolveSchedule_fallback:
  assumes "\<not> geminiLoaded h \<or>
           (\<exists>e. suggestFullScheduleWithGemini h nowAI (type rem) (title rem)
                  (case description rem of Some d \<Rightarrow> d | None \<Rightarrow> []) = Throws e) \<or>
           suggestFullScheduleWithGemini h nowAI (type rem) (title rem)
                  (case description rem of Some d \<Rightarrow> d | None \<Rightarrow> []) = Returns None"
  shows "resolveSchedule h nowAI nowSlot rem w =
     (case findSmartSlot h (uid (user rem)) nowSlot w of
        (Returns (Some t), w1) \<Rightarrow>
          ((Some \<lparr>startDateISO = Some (ISO t), s_scheduleType = OneDay, s_scheduleDays = [],
                   s_scheduleTime = \<lparr>minutesBeforeStart = Some 10, fixedTime = None\<rparr>\<rparr>,
            Some ''fallback''), w1)
      | (Returns None, w1) \<Rightarrow> ((None, None), w1)
      | (Throws e, w1) \<Rightarrow> ((None, None), w1))"
  using assms by (auto simp: resolveSchedule_def split: prod.splits outcome.splits option.splits)

lemma dbCall_no_faults: "faults w = [] \<Longrightarrow> dbCall w = (False, w)"
  by (simp add: dbCall_def)

lemma findSmartSlot_no_faults:
  "faults w = [] \<Longrightarrow> \<exists>r. findSmartSlot h usr now w = (Returns r, w)"
  by (simp add: findSmartSlot_def dbCall_no_faults Let_def)

lemma findById_no_faults:
  "faults w = [] \<Longrightarrow> findById i w = (Returns (find (\<lambda>r. rid r = i) (reminders w)), w)"
  by (simp add: findById_def dbCall_no_faults)

lemma save_no_faults:
  "faults w = [] \<Longrightarrow> \<exists>w1. save r w = (Returns (), w1)"
  by (simp add: save_def dbCall_no_faults)

lemma scheduleStage_fallback:
  assumes "type rem = Task" and "\<not> isManualSchedule rem" and "startDate rem = None"
    and "\<not> geminiLoaded h \<or>
           (\<exists>e. suggestFullScheduleWithGemini h nowAI (type rem) (title rem)
                  (case description rem of Some d \<Rightarrow> d | None \<Rightarrow> []) = Throws e) \<or>
           suggestFullScheduleWithGemini h nowAI (type rem) (title rem)
                  (case description rem of Some d \<Rightarrow> d | None \<Rightarrow> []) = Returns None"
  shows "scheduleStage h nowAI nowSlot rem w =
       (case findSmartSlot h (uid (user rem)) nowSlot w of
          (Returns (Some t), w1) \<Rightarrow>
            ((rem\<lparr>startDate := Some t, scheduleType := Some OneDay, scheduleDays := Some [],
                  scheduleTime := Some \<lparr>minutesBeforeStart = Some 10, fixedTime = None\<rparr>,
                  notificationPreferenceMinutes := 10, aiSuggested := True\<rparr>,
              Some ''fallback'', False), w1)
        | (Returns None, w1) \<Rightarrow> ((rem, None, False), w1)
        | (Throws e, w1) \<Rightarrow> ((rem, None, False), w1))"
  using assms(1-3)
  by (simp add: scheduleStage_def resolveSchedule_fallback [OF assms(4)] applySchedule_def Let_def
        split: prod.splits outcome.splits option.splits)

lemma scheduleStage_invalid_only_gemini:
  assumes "scheduleStage h nowAI nowSlot rem w = ((rem1, src, invalid), w1)" and "faults w = []"
  shows "faults w1 = []"
  using assms findSmartSlot_no_faults [OF assms(2), of h "uid (user rem)" nowSlot]
  by (auto simp: scheduleStage_def resolveSchedule_def Let_def
        split: if_splits prod.splits outcome.splits option.splits)

text \<open>
  C2. For a Task that is not manually scheduled and has no start time, when the AI schedule
  capability is not loaded, throws or returns nothing valid, the schedule stage applies the
  heuristic's decision: the first free hourly slot of the search window as a one-day
  schedule with a lead time of 10 minutes, or no change when the heuristic has no slot.
  With a working database the enrichment pass returns normally.
\<close>

theorem fallback_correctness:
  assumes "type rem = Task" and "\<not> isManualSchedule rem" and "startDate rem = None"
    and "\<not> geminiLoaded h \<or>
           (\<exists>e. suggestFullScheduleWithGemini h nowAI (type rem) (title rem)
                  (case description rem of Some d \<Rightarrow> d | None \<Rightarrow> []) = Throws e) \<or>
           suggestFullScheduleWithGemini h nowAI (type rem) (title rem)
                  (case description rem of Some d \<Rightarrow> d | None \<Rightarrow> []) = Returns None"
  shows "scheduleStage h nowAI nowSlot rem w =
       (case findSmartSlot h (uid (user rem)) nowSlot w of
          (Returns (Some t), w1) \<Rightarrow>
            ((rem\<lparr>startDate := Some t, scheduleType := Some OneDay, scheduleDays := Some [],
                  scheduleTime := Some \<lparr>minutesBeforeStart = Some 10, fixedTime = None\<rparr>,
                  notificationPreferenceMinutes := 10, aiSuggested := True\<rparr>,
              Some ''fallback'', False), w1)
        | (Returns None, w1) \<Rightarrow> ((rem, None, False), w1)
        | (Throws e, w1) \<Rightarrow> ((rem, None, False), w1)) \<and>
     (\<forall>t w1. findSmartSlot h (uid (user rem)) nowSlot w = (Returns (Some t), w1) \<longrightarrow>
        (\<exists>k. t = nowSlot + (1 + int k) * 3600000 \<and> t \<le> nowSlot + 604800000 \<and>
             freeSlot h (uid (user rem)) w t \<and>
             (\<forall>j<k. \<not> freeSlot h (uid (user rem)) w (nowSlot + (1 + int j) * 3600000)))) \<and>
     (\<forall>k w1. findSmartSlot h (uid (user rem)) nowSlot w = (Returns None, w1) \<and>
          nowSlot + (1 + int k) * 3600000 \<le> nowSlot + 604800000 \<longrightarrow>
          \<not> freeSlot h (uid (user rem)) w (nowSlot + (1 + int k) * 3600000)) \<and>
     (faults w = [] \<and> find (\<lambda>r. rid r = i) (reminders w) = Some rem \<longrightarrow>
        (\<exists>en. fst (processBackgroundAI h nowAI nowSlot nowTTS i optUser w) = Returns (Some en) \<and>
              scheduleSource en \<noteq> Some ''gemini''))"
proof (intro conjI allI impI)
  show "scheduleStage h nowAI nowSlot rem w =
       (case findSmartSlot h (uid (user rem)) nowSlot w of
          (Returns (Some t), w1) \<Rightarrow>
            ((rem\<lparr>startDate := Some t, scheduleType := Some OneDay, scheduleDays := Some [],
                  scheduleTime := Some \<lparr>minutesBeforeStart = Some 10, fixedTime = None\<rparr>,
                  notificationPreferenceMinutes := 10, aiSuggested := True\<rparr>,
              Some ''fallback'', False), w1)
        | (Returns None, w1) \<Rightarrow> ((rem, None, False), w1)
        | (Throws e, w1) \<Rightarrow> ((rem, None, False), w1))"
    by (rule scheduleStage_fallback [OF assms])
next
  fix t w1
  assume "findSmartSlot h (uid (user rem)) nowSlot w = (Returns (Some t), w1)"
  then show "\<exists>k. t = nowSlot + (1 + int k) * 3600000 \<and> t \<le> nowSlot + 604800000 \<and>
             freeSlot h (uid (user rem)) w t \<and>
             (\<forall>j<k. \<not> freeSlot h (uid (user rem)) w (nowSlot + (1 + int j) * 3600000))"
    by (rule findSmartSlot_first)
next
  fix k w1
  assume "findSmartSlot h (uid (user rem)) nowSlot w = (Returns None, w1) \<and>
          nowSlot + (1 + int k) * 3600000 \<le> nowSlot + 604800000"
  then show "\<not> freeSlot h (uid (user rem)) w (nowSlot + (1 + int k) * 3600000)"
    using findSmartSlot_none by blast
next
  assume a: "faults w = [] \<and> find (\<lambda>r. rid r = i) (reminders w) = Some rem"
  obtain rem1 src invalid w1 where st: "scheduleStage h nowAI nowSlot rem w = ((rem1, src, invalid), w1)"
    by (metis prod_cases3 surj_pair)
  have inv: "invalid = False" and src: "src \<noteq> Some ''gemini''"
    using st unfolding scheduleStage_fallback [OF assms]
    by (auto split: prod.splits outcome.splits option.splits)
  have f1: "faults w1 = []" using scheduleStage_invalid_only_gemini [OF st] a by simp
  obtain rem2 lsrc where ls: "lineStage h (case optUser of Some x \<Rightarrow> x | None \<Rightarrow> user rem1) rem1 = (rem2, lsrc)"
    by (metis surj_pair)
  obtain w2 where sv: "save rem2 w1 = (Returns (), w2)" using save_no_faults [OF f1] by blast
  show "\<exists>en. fst (processBackgroundAI h nowAI nowSlot nowTTS i optUser w) = Returns (Some en) \<and>
              scheduleSource en \<noteq> Some ''gemini''"
    using a st inv src ls sv
    by (simp add: processBackgroundAI_def findById_no_faults Let_def)
qed

theorem fallback_correctness_witness:
  "type buyMilk = Task \<and> \<not> isManualSchedule buyMilk \<and> startDate buyMilk = None \<and>
   suggestFullScheduleWithGemini failingAI 28800000 (type buyMilk) (title buyMilk) [] =
     Throws ''Gemini SDK not installed'' \<and>
   scheduleStage failingAI 28800000 28800000 buyMilk taskWorld =
     ((buyMilk\<lparr>startDate := Some 36000000, scheduleType := Some OneDay, scheduleDays := Some [],
          scheduleTime := Some \<lparr>minutesBeforeStart = Some 10, fixedTime = None\<rparr>,
          notificationPreferenceMinutes := 10, aiSuggested := True\<rparr>,
       Some ''fallback'', False), taskWorld) \<and>
   freeSlot failingAI 1 taskWorld 36000000 \<and>
   \<not> freeSlot failingAI 1 taskWorld 32400000 \<and>
   faults taskWorld = [] \<and> find (\<lambda>r. rid r = 2) (reminders taskWorld) = Some buyMilk \<and>
   (\<exists>en. fst (processBackgroundAI failingAI 28800000 28800000 28800000 2 None taskWorld) =
            Returns (Some en) \<and> scheduleSource en \<noteq> Some ''gemini'')"
proof -
  have a: "type buyMilk = Task" "\<not> isManualSchedule buyMilk" "startDate buyMilk = None"
    by (simp_all add: buyMilk_def newReminder_def)
  have d: "description buyMilk = None" by (simp add: buyMilk_def newReminder_def)
  have t: "suggestFullScheduleWithGemini failingAI 28800000 (type buyMilk) (title buyMilk) [] =
     Throws ''Gemini SDK not installed''"
    by (simp add: suggestFullScheduleWithGemini_def failingAI_def utcHost_def)
  have b: "\<not> geminiLoaded failingAI \<or>
           (\<exists>e. suggestFullScheduleWithGemini failingAI 28800000 (type buyMilk) (title buyMilk)
                  (case description buyMilk of Some d \<Rightarrow> d | None \<Rightarrow> []) = Throws e) \<or>
           suggestFullScheduleWithGemini failingAI 28800000 (type buyMilk) (title buyMilk)
                  (case description buyMilk of Some d \<Rightarrow> d | None \<Rightarrow> []) = Returns None"
    using t d by simp
  have run: "findSmartSlot failingAI (uid (user buyMilk)) 28800000 taskWorld =
      (Returns (Some 36000000), taskWorld)"
    by (simp add: findSmartSlot_def dbCall_def taskWorld_def standup_def buyMilk_def newReminder_def
         alice_def failingAI_def utcHost_def getHoursUTC_def oneHour_def sevenDays_def slotLoop.simps)
  have f: "freeSlot failingAI 1 taskWorld 36000000" "\<not> freeSlot failingAI 1 taskWorld 32400000"
    by (simp_all add: freeSlot_def taskWorld_def standup_def buyMilk_def newReminder_def
         alice_def failingAI_def utcHost_def getHoursUTC_def)
  have g: "faults taskWorld = []" "find (\<lambda>r. rid r = 2) (reminders taskWorld) = Some buyMilk"
    by (simp_all add: taskWorld_def standup_def buyMilk_def newReminder_def)
  note inst = fallback_correctness [OF a b, of 28800000 taskWorld 2 28800000 None]
  from inst have s: "scheduleStage failingAI 28800000 28800000 buyMilk taskWorld =
     ((buyMilk\<lparr>startDate := Some 36000000, scheduleType := Some OneDay, scheduleDays := Some [],
          scheduleTime := Some \<lparr>minutesBeforeStart = Some 10, fixedTime = None\<rparr>,
          notificationPreferenceMinutes := 10, aiSuggested := True\<rparr>,
       Some ''fallback'', False), taskWorld)"
    unfolding run by simp
  from inst g have p: "\<exists>en. fst (processBackgroundAI failingAI 28800000 28800000 28800000 2 None taskWorld) =
            Returns (Some en) \<and> scheduleSource en \<noteq> Some ''gemini''"
    by blast
  from a t s f g p show ?thesis by blast
qed

section \<open>What the validity checks of the AI schedule accept\<close>

lemma validSchedule_iff:
  "validSchedule h now sch = Some s \<longleftrightarrow>
     s = sch \<and>
     (case s_scheduleType sch of
        OneDay \<Rightarrow> (\<exists>src d. startDateISO sch = Some src \<and> newDate h src = Some d \<and> now < d)
      | Routine \<Rightarrow> (\<exists>f. fixedTime (s_scheduleTime sch) = Some f \<and> f \<noteq> []))"
  by (auto simp: validSchedule_def split: schedule_type.splits option.splits)

lemma validSchedule_none_iff:
  "validSchedule h now sch = None \<longleftrightarrow>
     \<not> (case s_scheduleType sch of
          OneDay \<Rightarrow> (\<exists>src d. startDateISO sch = Some src \<and> newDate h src = Some d \<and> now < d)
        | Routine \<Rightarrow> (\<exists>f. fixedTime (s_scheduleTime sch) = Some f \<and> f \<noteq> []))"
  by (auto simp: validSchedule_def split: schedule_type.splits option.splits)

text \<open>
  C1, as the code has it. A one-day decision of the AI is accepted exactly when its start
  time is present, is a valid date and lies strictly after \<open>now\<close>; no upper bound is
  checked. A routine decision is accepted exactly when its \<open>fixedTime\<close> is a non-empty string.
  Every other parsed reply makes the function return null.
\<close>

theorem suggestFullSchedule_validity:
  "(suggestFullScheduleWithGemini h now k ttl de = Returns (Some sch) \<longleftrightarrow>
      (\<exists>raw obj. generateSchedule h k ttl de now = Returns raw \<and> parseReply h raw = Some obj \<and>
         sch = scheduleOf obj \<and>
         (case s_scheduleType sch of
            OneDay \<Rightarrow> (\<exists>src d. startDateISO sch = Some src \<and> newDate h src = Some d \<and> now < d)
          | Routine \<Rightarrow> (\<exists>f. fixedTime (s_scheduleTime sch) = Some f \<and> f \<noteq> [])))) \<and>
   (suggestFullScheduleWithGemini h now k ttl de = Returns None \<longleftrightarrow>
      (\<exists>raw obj. generateSchedule h k ttl de now = Returns raw \<and> parseReply h raw = Some obj \<and>
         \<not> (case s_scheduleType (scheduleOf obj) of
              OneDay \<Rightarrow> (\<exists>src d. startDateISO (scheduleOf obj) = Some src \<and>
                            newDate h src = Some d \<and> now < d)
            | Routine \<Rightarrow> (\<exists>f. fixedTime (s_scheduleTime (scheduleOf obj)) = Some f \<and> f \<noteq> []))))"
proof (intro conjI)
  show "suggestFullScheduleWithGemini h now k ttl de = Returns (Some sch) \<longleftrightarrow>
      (\<exists>raw obj. generateSchedule h k ttl de now = Returns raw \<and> parseReply h raw = Some obj \<and>
         sch = scheduleOf obj \<and>
         (case s_scheduleType sch of
            OneDay \<Rightarrow> (\<exists>src d. startDateISO sch = Some src \<and> newDate h src = Some d \<and> now < d)
          | Routine \<Rightarrow> (\<exists>f. fixedTime (s_scheduleTime sch) = Some f \<and> f \<noteq> [])))"
  proof (cases "generateSchedule h k ttl de now")
    case (Throws e)
    then show ?thesis by (simp add: suggestFullScheduleWithGemini_def)
  next
    case (Returns raw)
    show ?thesis
    proof (cases "parseReply h raw")
      case None
      with Returns show ?thesis by (simp add: suggestFullScheduleWithGemini_def)
    next
      case (Some obj)
      with Returns show ?thesis
        by (auto simp: suggestFullScheduleWithGemini_def validSchedule_iff)
    qed
  qed
next
  show "suggestFullScheduleWithGemini h now k ttl de = Returns None \<longleftrightarrow>
      (\<exists>raw obj. generateSchedule h k ttl de now = Returns raw \<and> parseReply h raw = Some obj \<and>
         \<not> (case s_scheduleType (scheduleOf obj) of
              OneDay \<Rightarrow> (\<exists>src d. startDateISO (scheduleOf obj) = Some src \<and>
                            newDate h src = Some d \<and> now < d)
            | Routine \<Rightarrow> (\<exists>f. fixedTime (s_scheduleTime (scheduleOf obj)) = Some f \<and> f \<noteq> [])))"
  proof (cases "generateSchedule h k ttl de now")
    case (Throws e)
    then show ?thesis by (simp add: suggestFullScheduleWithGemini_def)
  next
    case (Returns raw)
    show ?thesis
    proof (cases "parseReply h raw")
      case None
      with Returns show ?thesis by (simp add: suggestFullScheduleWithGemini_def)
    next
      case (Some obj)
      with Returns show ?thesis
        by (simp add: suggestFullScheduleWithGemini_def validSchedule_none_iff)
    qed
  qed
qed

lemma farObj_schedule:
  "scheduleOf farObj =
     \<lparr>startDateISO = Some (Raw (JStr ''1970-02-01T00:00:00Z'')), s_scheduleType = OneDay,
      s_scheduleDays = [], s_scheduleTime = \<lparr>minutesBeforeStart = Some 15, fixedTime = None\<rparr>\<rparr>"
  by (simp add: scheduleOf_def farObj_def)

lemma farHost_reply: "parseReply farHost farReply = Some farObj"
  by (simp add: parseReply_def farHost_def utcHost_def farParse_def farObj_def)

lemma farHost_generate: "generateSchedule farHost k ttl de now = Returns farReply"
  by (simp add: farHost_def utcHost_def)

lemma farHost_date: "Date_parse farHost (JStr ''1970-02-01T00:00:00Z'') = Some 2678400000"
  by (simp add: farHost_def utcHost_def farDate_def)

theorem suggestFullSchedule_validity_witness:
  "suggestFullScheduleWithGemini farHost 0 Task ''Buy milk'' [] = Returns (Some (scheduleOf farObj)) \<and>
   generateSchedule farHost Task ''Buy milk'' [] 0 = Returns farReply \<and>
   parseReply farHost farReply = Some farObj \<and>
   s_scheduleType (scheduleOf farObj) = OneDay \<and>
   startDateISO (scheduleOf farObj) = Some (Raw (JStr ''1970-02-01T00:00:00Z'')) \<and>
   newDate farHost (Raw (JStr ''1970-02-01T00:00:00Z'')) = Some 2678400000 \<and>
   (0::int) < 2678400000"
proof -
  have g: "generateSchedule farHost Task ''Buy milk'' [] 0 = Returns farReply"
    by (simp add: farHost_def utcHost_def)
  have d: "newDate farHost (Raw (JStr ''1970-02-01T00:00:00Z'')) = Some 2678400000"
    by (simp add: farHost_def utcHost_def farDate_def)
  have "suggestFullScheduleWithGemini farHost 0 Task ''Buy milk'' [] = Returns (Some (scheduleOf farObj))"
    unfolding suggestFullSchedule_validity [THEN conjunct1]
    using g farHost_reply d by (simp add: farObj_schedule)
  with g farHost_reply d show ?thesis by (simp add: farObj_schedule)
qed

text \<open>
  The claim as stated fails: asked at time 0, the code accepts a one-day decision whose start
  lies 31 days ahead, beyond the seven-day horizon \<open>now + 604800000\<close>.
\<close>

theorem suggestFullSchedule_beyond_horizon:
  "suggestFullScheduleWithGemini farHost 0 Task ''Buy milk'' [] =
     Returns (Some \<lparr>startDateISO = Some (Raw (JStr ''1970-02-01T00:00:00Z'')), s_scheduleType = OneDay,
        s_scheduleDays = [], s_scheduleTime = \<lparr>minutesBeforeStart = Some 15, fixedTime = None\<rparr>\<rparr>) \<and>
   newDate farHost (Raw (JStr ''1970-02-01T00:00:00Z'')) = Some 2678400000 \<and>
   \<not> (2678400000 \<le> (0::int) + 604800000)"
  by (simp add: suggestFullScheduleWithGemini_def farHost_generate farHost_reply farObj_schedule
        validSchedule_def farHost_date)

section \<open>The stored notification line is kept\<close>

lemma find_replace:
  "find (\<lambda>x. rid x = j) (map (\<lambda>x. if rid x = rid r then r else x) xs) =
     (if j = rid r then (case find (\<lambda>x. rid x = j) xs of None \<Rightarrow> None | Some y \<Rightarrow> Some r)
      else find (\<lambda>x. rid x = j) xs)"
  by (induction xs) auto

lemma save_reminders:
  "save r w = (res, w') \<Longrightarrow>
     (res = Returns () \<and> reminders w' = map (\<lambda>x. if rid x = rid r then r else x) (reminders w)) \<or>
     ((\<exists>e. res = Throws e) \<and> reminders w' = reminders w)"
  by (auto simp: save_def dbCall_def Let_def split: list.splits if_splits)

lemma storedLine_synthLog [simp]: "storedLine i (w\<lparr>synthLog := x\<rparr>) = storedLine i w"
  by (simp add: storedLine_def)

lemma save_keeps_line:
  assumes "save r w = (res, w')" and "rid r = i" and "aiNotificationLine r = a"
    and "storedLine i w = Some a"
  shows "storedLine i w' = Some a"
  using save_reminders [OF assms(1)] assms(2-4)
  by (auto simp: storedLine_def find_replace split: option.splits)

lemma findById_result:
  "findById i w = (res, w') \<Longrightarrow>
     reminders w' = reminders w \<and>
     (res = Returns (find (\<lambda>r. rid r = i) (reminders w)) \<or> (\<exists>e. res = Throws e))"
  by (auto simp: findById_def dbCall_def Let_def split: list.splits if_splits)

lemma find_rid: "find (\<lambda>r. rid r = i) xs = Some r \<Longrightarrow> rid r = i"
  by (induction xs) (auto split: if_splits)

lemma mark_frame [simp]:
  "rid (markPending v hash r) = rid r" "aiNotificationLine (markPending v hash r) = aiNotificationLine r"
  "rid (markReady b now r) = rid r" "aiNotificationLine (markReady b now r) = aiNotificationLine r"
  "rid (markFailed r) = rid r" "aiNotificationLine (markFailed r) = aiNotificationLine r"
  by (simp_all add: markPending_def markReady_def markFailed_def)

lemma synthesizeAndStore_keeps_line:
  assumes "synthesizeAndStore h now text v p w = (res, w')" and "rid p = i"
    and "aiNotificationLine p = a" and "storedLine i w = Some a"
  shows "storedLine i w' = Some a"
  using assms unfolding synthesizeAndStore_def Let_def
  by (auto split: outcome.splits prod.splits
        dest!: save_keeps_line [where i = i and a = a])

lemma ensureReminderTTS_keeps_line:
  assumes "ensureReminderTTS h now i ou ov w = (res, w')" and "storedLine i w = Some a"
  shows "storedLine i w' = Some a"
proof -
  obtain r0 w1 where fb: "findById i w = (r0, w1)" by (metis surj_pair)
  from findById_result [OF fb] have w1: "reminders w1 = reminders w"
    and r0: "r0 = Returns (find (\<lambda>r. rid r = i) (reminders w)) \<or> (\<exists>e. r0 = Throws e)" by auto
  have s1: "storedLine i w1 = Some a" using assms(2) w1 by (simp add: storedLine_def)
  from assms(2) obtain rem where f: "find (\<lambda>r. rid r = i) (reminders w) = Some rem"
    and la: "aiNotificationLine rem = a"
    by (auto simp: storedLine_def)
  have ri: "rid rem = i" using find_rid [OF f] .
  from r0 show ?thesis
  proof
    assume "\<exists>e. r0 = Throws e"
    with assms(1) fb s1 show ?thesis by (auto simp: ensureReminderTTS_def)
  next
    assume "r0 = Returns (find (\<lambda>r. rid r = i) (reminders w))"
    with f have r0': "r0 = Returns (Some rem)" by simp
    show ?thesis
      using assms(1) s1 la ri unfolding ensureReminderTTS_def fb r0'
      by (auto simp: Let_def split: if_splits prod.splits outcome.splits
            dest!: save_keeps_line [where i = i and a = a]
            dest: synthesizeAndStore_keeps_line [where i = i and a = a])
  qed
qed

section \<open>The cached notification line\<close>

lemma findSmartSlot_reminders:
  "findSmartSlot h usr now w = (res, w') \<Longrightarrow> reminders w' = reminders w"
  by (auto simp: findSmartSlot_def dbCall_def Let_def split: list.splits if_splits)

lemma applySchedule_frame:
  "applySchedule h sch rem = (rem1, invalid) \<Longrightarrow>
     aiNotificationLine rem1 = aiNotificationLine rem \<and> rid rem1 = rid rem \<and> tts rem1 = tts rem"
  by (auto simp: applySchedule_def Let_def split: option.splits if_splits)

lemma scheduleStage_frame:
  assumes "scheduleStage h nowAI nowSlot rem w = ((rem1, src, invalid), w1)"
  shows "aiNotificationLine rem1 = aiNotificationLine rem \<and> rid rem1 = rid rem \<and>
         tts rem1 = tts rem \<and> reminders w1 = reminders w"
proof (cases "\<not> isManualSchedule rem \<and> type rem = Task \<and> startDate rem = None")
  case False
  with assms show ?thesis by (auto simp: scheduleStage_def)
next
  case True
  obtain so sc w2 where rs: "resolveSchedule h nowAI nowSlot rem w = ((so, sc), w2)"
    by (metis surj_pair)
  have w2: "reminders w2 = reminders w"
    using rs by (auto simp: resolveSchedule_def Let_def split: option.splits prod.splits outcome.splits
                  dest: findSmartSlot_reminders)
  show ?thesis
  proof (cases so)
    case None
    with assms True rs w2 show ?thesis by (auto simp: scheduleStage_def)
  next
    case (Some sch)
    obtain r2 inv2 where ap: "applySchedule h sch rem = (r2, inv2)" by (metis surj_pair)
    from assms True rs Some ap have "rem1 = r2" "w1 = w2" by (auto simp: scheduleStage_def)
    with applySchedule_frame [OF ap] w2 show ?thesis by simp
  qed
qed

lemma lineStage_keeps:
  assumes "aiNotificationLine rem = Some l" and "l \<noteq> []"
    and "\<not> geminiLoaded h \<or> (\<exists>e. generateLine h rem u = Throws e)"
  shows "lineStage h u rem = (rem, None)"
  using assms by (auto simp: lineStage_def)

lemma buildNotificationText_cached:
  "aiNotificationLine r = Some l \<Longrightarrow> l \<noteq> [] \<Longrightarrow> buildNotificationText r u = l"
  by (simp add: buildNotificationText_def)

text \<open>
  C10. When a reminder carries a non-empty \<open>aiNotificationLine\<close> and the AI line capability is
  not loaded or throws, the enrichment pass leaves the line as it is, in the collection and
  in the document it returns; and \<open>buildNotificationText\<close> returns a cached non-empty line
  verbatim, whatever the reminder's type and title are.
\<close>

theorem cached_line_kept:
  assumes "find (\<lambda>r. rid r = i) (reminders w) = Some rem"
    and "aiNotificationLine rem = Some l" and "l \<noteq> []"
    and "\<not> geminiLoaded h \<or> (\<forall>r u. \<exists>e. generateLine h r u = Throws e)"
  shows "storedLine i (snd (processBackgroundAI h nowAI nowSlot nowTTS i optUser w)) = Some (Some l) \<and>
         (\<forall>en. fst (processBackgroundAI h nowAI nowSlot nowTTS i optUser w) = Returns (Some en) \<longrightarrow>
                aiNotificationLine (e_reminder en) = Some l) \<and>
         (\<forall>r u. aiNotificationLine r = Some l \<longrightarrow> buildNotificationText r u = l)"
proof -
  have s0: "storedLine i w = Some (Some l)" using assms(1,2) by (simp add: storedLine_def)
  obtain r0 w1 where fb: "findById i w = (r0, w1)" by (metis surj_pair)
  from findById_result [OF fb] have w1: "reminders w1 = reminders w"
    and r0: "r0 = Returns (find (\<lambda>r. rid r = i) (reminders w)) \<or> (\<exists>e. r0 = Throws e)" by auto
  have s1: "storedLine i w1 = Some (Some l)" using s0 w1 by (simp add: storedLine_def)
  have main: "storedLine i (snd (processBackgroundAI h nowAI nowSlot nowTTS i optUser w)) = Some (Some l) \<and>
         (\<forall>en. fst (processBackgroundAI h nowAI nowSlot nowTTS i optUser w) = Returns (Some en) \<longrightarrow>
                aiNotificationLine (e_reminder en) = Some l)"
    using r0
  proof
    assume "\<exists>e. r0 = Throws e"
    with fb s1 show ?thesis by (auto simp: processBackgroundAI_def)
  next
    assume "r0 = Returns (find (\<lambda>r. rid r = i) (reminders w))"
    with assms(1) have r0': "r0 = Returns (Some rem)" by simp
    obtain rem1 src invalid w2 where st: "scheduleStage h nowAI nowSlot rem w1 = ((rem1, src, invalid), w2)"
      by (metis prod_cases3 surj_pair)
    from scheduleStage_frame [OF st] have l1: "aiNotificationLine rem1 = Some l" and i1: "rid rem1 = i"
      and w2: "reminders w2 = reminders w1"
      using assms(2) find_rid [OF assms(1)] by auto
    have s2: "storedLine i w2 = Some (Some l)" using s1 w2 by (simp add: storedLine_def)
    define u where "u = (case optUser of Some x \<Rightarrow> x | None \<Rightarrow> user rem1)"
    have ls: "lineStage h u rem1 = (rem1, None)"
      using lineStage_keeps [OF l1 assms(3)] assms(4) by blast
    show ?thesis
    proof (cases invalid)
      case True
      with fb r0' st ls s2 show ?thesis
        by (simp add: processBackgroundAI_def u_def [symmetric] Let_def)
    next
      case False
      obtain sr w3 where sv: "save rem1 w2 = (sr, w3)" by (metis surj_pair)
      have s3: "storedLine i w3 = Some (Some l)"
        using save_keeps_line [OF sv i1 l1 s2] .
      show ?thesis
      proof (cases sr)
        case (Throws e)
        with fb r0' st ls False sv s3 show ?thesis
          by (simp add: processBackgroundAI_def u_def [symmetric] Let_def)
      next
        case (Returns x)
        have s4: "storedLine i (snd (ensureReminderTTS h nowTTS i (Some u) None w3)) = Some (Some l)"
          using ensureReminderTTS_keeps_line [OF _ s3] by (metis surjective_pairing)
        from fb r0' st ls False sv Returns s3 s4 l1 i1 show ?thesis
          by (simp add: processBackgroundAI_def u_def [symmetric] Let_def)
      qed
    qed
  qed
  moreover have "\<forall>r u. aiNotificationLine r = Some l \<longrightarrow> buildNotificationText r u = l"
    using assms(3) by (simp add: buildNotificationText_cached)
  ultimately show ?thesis by blast
qed

theorem cached_line_kept_witness:
  "find (\<lambda>r. rid r = 3) (reminders linedWorld) = Some lined \<and>
   aiNotificationLine lined = Some ''Alice, time to call mum!'' \<and>
   generateLine failingAI lined alice = Throws ''Gemini SDK not installed'' \<and>
   storedLine 3 (snd (processBackgroundAI failingAI 0 0 0 3 None linedWorld)) =
     Some (Some ''Alice, time to call mum!'') \<and>
   buildNotificationText (lined\<lparr>type := Location, title := ''Pharmacy''\<rparr>) alice =
     ''Alice, time to call mum!''"
proof -
  have a: "find (\<lambda>r. rid r = 3) (reminders linedWorld) = Some lined"
    "aiNotificationLine lined = Some ''Alice, time to call mum!''"
    "''Alice, time to call mum!'' \<noteq> []"
    by (simp_all add: linedWorld_def lined_def newReminder_def)
  have g: "generateLine failingAI r u = Throws ''Gemini SDK not installed''" for r u
    by (simp add: failingAI_def utcHost_def)
  then have b: "\<not> geminiLoaded failingAI \<or> (\<forall>r u. \<exists>e. generateLine failingAI r u = Throws e)"
    by blast
  have c: "aiNotificationLine (lined\<lparr>type := Location, title := ''Pharmacy''\<rparr>) =
      Some ''Alice, time to call mum!''"
    by (simp add: lined_def newReminder_def)
  from cached_line_kept [OF a b, of 0 0 0 None] a(1,2) g c show ?thesis by blast
qed

section \<open>The speech stage\<close>

lemma save_find:
  assumes "save r w = (res, w')" and "find (\<lambda>x. rid x = i) (reminders w) = Some r0" and "rid r = i"
  shows "(res = Returns () \<and> find (\<lambda>x. rid x = i) (reminders w') = Some r) \<or>
         ((\<exists>e. res = Throws e) \<and> find (\<lambda>x. rid x = i) (reminders w') = Some r0)"
  using save_reminders [OF assms(1)] assms(2,3) by (auto simp: find_replace)

lemma dbCall_frame:
  "dbCall w = (b, w') \<Longrightarrow>
     reminders w' = reminders w \<and> synthLog w' = synthLog w \<and> notifications w' = notifications w"
  by (auto simp: dbCall_def split: list.splits)

lemma save_frame:
  "save r w = (res, w') \<Longrightarrow> synthLog w' = synthLog w \<and> notifications w' = notifications w"
  by (auto simp: save_def Let_def split: prod.splits if_splits dest: dbCall_frame)

lemma findById_frame:
  "findById i w = (res, w') \<Longrightarrow>
     reminders w' = reminders w \<and> synthLog w' = synthLog w \<and> notifications w' = notifications w"
  by (auto simp: findById_def Let_def split: prod.splits if_splits dest: dbCall_frame)

lemma findById_accepts:
  "\<not> fst (dbCall w) \<Longrightarrow> fst (findById i w) = Returns (find (\<lambda>r. rid r = i) (reminders w))"
  by (auto simp: findById_def Let_def split: prod.splits dest: dbCall_frame)

lemma orElse_again:
  "orElse (orElse ov (orElse (orElse ov old) env)) env = orElse (orElse ov old) env"
  by (auto simp: orElse_def split: option.splits)

lemma ttsText_cong:
  "aiNotificationLine r' = aiNotificationLine r \<Longrightarrow> type r' = type r \<Longrightarrow> title r' = title r \<Longrightarrow>
   location_name r' = location_name r \<Longrightarrow> user r' = user r \<Longrightarrow> ttsText r' ou = ttsText r ou"
  by (simp add: ttsText_def buildNotificationText_def templateText_def
        cong: option.case_cong reminder_type.case_cong if_cong)

lemma ttsText_marks [simp]:
  "ttsText (markPending v hash r) ou = ttsText r ou"
  "ttsText (markReady b now r) ou = ttsText r ou"
  "ttsText (markFailed r) ou = ttsText r ou"
  by (rule ttsText_cong; simp add: markPending_def markReady_def markFailed_def)+

lemma ttsVoice_marks [simp]:
  "ttsVoice h (markReady b now r) ov = ttsVoice h r ov"
  "ttsVoice h (markPending (ttsVoice h r ov) hash r) ov = ttsVoice h r ov"
  by (simp_all add: ttsVoice_def markPending_def markReady_def orElse_again)

lemma tts_marks [simp]:
  "tts_status (tts (markPending v hash r)) = Pending"
  "tts_status (tts (markReady b now r)) = Ready"
  "tts_status (tts (markFailed r)) = Failed"
  "textHash (tts (markPending v hash r)) = Some hash"
  "textHash (tts (markReady b now r)) = textHash (tts r)"
  "audio (tts (markReady b now r)) = Some \<lparr>data = b, contentType = ''audio/mpeg'', audio_size = length b\<rparr>"
  by (simp_all add: markPending_def markReady_def markFailed_def)

text \<open>What a normal return of the speech stage establishes.\<close>

lemma synthesizeAndStore_returns:
  assumes "synthesizeAndStore h now text v p w = (Returns r', w')"
    and "find (\<lambda>x. rid x = i) (reminders w) = Some r0" and "rid p = i"
  shows "\<exists>b. synthesize h text v = Returns b \<and> r' = markReady b now p \<and>
             find (\<lambda>x. rid x = i) (reminders w') = Some r' \<and>
             synthLog w' = synthLog w @ [(text, v)]"
proof -
  have f: "find (\<lambda>x. rid x = i) (reminders (w\<lparr>synthLog := synthLog w @ [(text, v)]\<rparr>)) = Some r0"
    using assms(2) by simp
  show ?thesis
    using assms(1,3) unfolding synthesizeAndStore_def Let_def
    by (auto split: outcome.splits prod.splits dest: save_find [OF _ f] save_frame)
qed

lemma ensureReminderTTS_returns:
  assumes "ensureReminderTTS h now i ou ov w = (Returns r', w')"
  shows "\<exists>r0. find (\<lambda>x. rid x = i) (reminders w) = Some r0 \<and>
           find (\<lambda>x. rid x = i) (reminders w') = Some r' \<and>
           ttsText r' ou = ttsText r0 ou \<and> ttsVoice h r' ov = ttsVoice h r0 ov \<and>
           tts_status (tts r') = Ready \<and>
           textHash (tts r') = Some (computeTextHash (ttsText r0 ou) (ttsVoice h r0 ov)) \<and>
           ((r' = r0 \<and> synthLog w' = synthLog w \<and> reminders w' = reminders w \<and>
             upToDate (computeTextHash (ttsText r0 ou) (ttsVoice h r0 ov)) r0) \<or>
            (\<exists>b. synthesize h (ttsText r0 ou) (ttsVoice h r0 ov) = Returns b \<and>
                 \<not> upToDate (computeTextHash (ttsText r0 ou) (ttsVoice h r0 ov)) r0 \<and>
                 audio (tts r') = Some \<lparr>data = b, contentType = ''audio/mpeg'', audio_size = length b\<rparr> \<and>
                 synthLog w' = synthLog w @ [(ttsText r0 ou, ttsVoice h r0 ov)]))"
proof -
  obtain res1 w1 where fb: "findById i w = (res1, w1)" by (metis surj_pair)
  from findById_result [OF fb] findById_frame [OF fb]
  have w1: "reminders w1 = reminders w" "synthLog w1 = synthLog w"
    and r1: "res1 = Returns (find (\<lambda>r. rid r = i) (reminders w)) \<or> (\<exists>e. res1 = Throws e)" by auto
  from assms fb r1 obtain r0 where f0: "find (\<lambda>r. rid r = i) (reminders w) = Some r0"
    and res1: "res1 = Returns (Some r0)"
    by (auto simp: ensureReminderTTS_def split: option.splits)
  have ri: "rid r0 = i" using find_rid [OF f0] .
  define msg where "msg = ttsText r0 ou"
  define v where "v = ttsVoice h r0 ov"
  define hash where "hash = computeTextHash msg v"
  show ?thesis
  proof (cases "upToDate hash r0")
    case True
    with assms fb res1 have "r' = r0" "w' = w1"
      by (auto simp: ensureReminderTTS_def Let_def msg_def v_def hash_def)
    with True f0 w1 show ?thesis
      by (auto simp: upToDate_def msg_def v_def hash_def)
  next
    case False
    obtain sr w2 where sv: "save (markPending v hash r0) w1 = (sr, w2)" by (metis surj_pair)
    have f1: "find (\<lambda>x. rid x = i) (reminders w1) = Some r0" using f0 w1 by simp
    from assms fb res1 False sv have sr: "sr = Returns ()"
      and sy: "synthesizeAndStore h now msg v (markPending v hash r0) w2 = (Returns r', w')"
      by (auto simp: ensureReminderTTS_def Let_def msg_def v_def hash_def split: outcome.splits)
    from save_find [OF sv f1] sr ri
    have f2: "find (\<lambda>x. rid x = i) (reminders w2) = Some (markPending v hash r0)" by auto
    from synthesizeAndStore_returns [OF sy f2] ri obtain b where
      b: "synthesize h msg v = Returns b" "r' = markReady b now (markPending v hash r0)"
         "find (\<lambda>x. rid x = i) (reminders w') = Some r'" "synthLog w' = synthLog w2 @ [(msg, v)]"
      by auto
    have l2: "synthLog w2 = synthLog w" using save_frame [OF sv] w1 by simp
    show ?thesis
      using f0 b False l2 by (auto simp: msg_def v_def hash_def)
  qed
qed

section \<open>Idempotence of the speech stage\<close>

lemma ensureReminderTTS_skip:
  assumes "find (\<lambda>x. rid x = i) (reminders w) = Some r"
    and "textHash (tts r) = Some (computeTextHash (ttsText r ou) (ttsVoice h r ov))"
    and "tts_status (tts r) = Ready" and "\<exists>a. audio (tts r) = Some a \<and> data a \<noteq> []"
  shows "synthLog (snd (ensureReminderTTS h now i ou ov w)) = synthLog w \<and>
         reminders (snd (ensureReminderTTS h now i ou ov w)) = reminders w \<and>
         (\<not> fst (dbCall w) \<longrightarrow> fst (ensureReminderTTS h now i ou ov w) = Returns r)"
proof -
  obtain res1 w1 where fb: "findById i w = (res1, w1)" by (metis surj_pair)
  from findById_result [OF fb] findById_frame [OF fb]
  have w1: "reminders w1 = reminders w" "synthLog w1 = synthLog w"
    and r1: "res1 = Returns (find (\<lambda>r. rid r = i) (reminders w)) \<or> (\<exists>e. res1 = Throws e)" by auto
  have up: "upToDate (computeTextHash (ttsText r ou) (ttsVoice h r ov)) r"
    using assms(2-4) by (auto simp: upToDate_def)
  have acc: "\<not> fst (dbCall w) \<Longrightarrow> res1 = Returns (Some r)"
    using findById_accepts [of w i] fb assms(1) by simp
  from r1 show ?thesis
  proof
    assume "\<exists>e. res1 = Throws e"
    with fb w1 acc show ?thesis by (auto simp: ensureReminderTTS_def)
  next
    assume "res1 = Returns (find (\<lambda>r. rid r = i) (reminders w))"
    with assms(1) fb up w1 show ?thesis by (simp add: ensureReminderTTS_def Let_def)
  qed
qed

text \<open>
  C7. The speech stage is idempotent. Called on a reminder whose stored \<open>tts.textHash\<close> is the
  hash of its voice and notification text, whose \<open>tts.status\<close> is ready and whose stored audio
  is not empty, \<open>ensureReminderTTS\<close> sends no synthesis request, changes no document and
  returns the reminder as it is stored. This is the state a first call leaves when it
  returns with non-empty audio, so a second call with the same arguments does the same.
\<close>

theorem speech_stage_idempotent:
  "(find (\<lambda>x. rid x = i) (reminders w) = Some r \<and>
    textHash (tts r) = Some (computeTextHash (ttsText r ou) (ttsVoice h r ov)) \<and>
    tts_status (tts r) = Ready \<and> (\<exists>a. audio (tts r) = Some a \<and> data a \<noteq> []) \<longrightarrow>
      synthLog (snd (ensureReminderTTS h now i ou ov w)) = synthLog w \<and>
      reminders (snd (ensureReminderTTS h now i ou ov w)) = reminders w \<and>
      (\<not> fst (dbCall w) \<longrightarrow> fst (ensureReminderTTS h now i ou ov w) = Returns r)) \<and>
   (ensureReminderTTS h now1 i ou ov w = (Returns r1, w1) \<and>
    (\<exists>a. audio (tts r1) = Some a \<and> data a \<noteq> []) \<longrightarrow>
      synthLog (snd (ensureReminderTTS h now2 i ou ov w1)) = synthLog w1 \<and>
      reminders (snd (ensureReminderTTS h now2 i ou ov w1)) = reminders w1 \<and>
      (\<not> fst (dbCall w1) \<longrightarrow> fst (ensureReminderTTS h now2 i ou ov w1) = Returns r1))"
proof (intro conjI impI)
  assume a: "find (\<lambda>x. rid x = i) (reminders w) = Some r \<and>
    textHash (tts r) = Some (computeTextHash (ttsText r ou) (ttsVoice h r ov)) \<and>
    tts_status (tts r) = Ready \<and> (\<exists>a. audio (tts r) = Some a \<and> data a \<noteq> [])"
  then have s: "synthLog (snd (ensureReminderTTS h now i ou ov w)) = synthLog w \<and>
         reminders (snd (ensureReminderTTS h now i ou ov w)) = reminders w \<and>
         (\<not> fst (dbCall w) \<longrightarrow> fst (ensureReminderTTS h now i ou ov w) = Returns r)"
    using ensureReminderTTS_skip [of i w r ou h ov now] by blast
  from s show "synthLog (snd (ensureReminderTTS h now i ou ov w)) = synthLog w" by blast
  from s show "reminders (snd (ensureReminderTTS h now i ou ov w)) = reminders w" by blast
  assume "\<not> fst (dbCall w)"
  with s show "fst (ensureReminderTTS h now i ou ov w) = Returns r" by blast
next
  assume b: "ensureReminderTTS h now1 i ou ov w = (Returns r1, w1) \<and>
    (\<exists>a. audio (tts r1) = Some a \<and> data a \<noteq> [])"
  from ensureReminderTTS_returns [of h now1 i ou ov w r1 w1] b
  have f: "find (\<lambda>x. rid x = i) (reminders w1) = Some r1"
    and st: "tts_status (tts r1) = Ready"
    and th: "textHash (tts r1) = Some (computeTextHash (ttsText r1 ou) (ttsVoice h r1 ov))"
    by auto
  from b have au: "\<exists>a. audio (tts r1) = Some a \<and> data a \<noteq> []" by blast
  have s: "synthLog (snd (ensureReminderTTS h now2 i ou ov w1)) = synthLog w1 \<and>
         reminders (snd (ensureReminderTTS h now2 i ou ov w1)) = reminders w1 \<and>
         (\<not> fst (dbCall w1) \<longrightarrow> fst (ensureReminderTTS h now2 i ou ov w1) = Returns r1)"
    by (rule ensureReminderTTS_skip [OF f th st au])
  from s show "synthLog (snd (ensureReminderTTS h now2 i ou ov w1)) = synthLog w1" by blast
  from s show "reminders (snd (ensureReminderTTS h now2 i ou ov w1)) = reminders w1" by blast
  assume "\<not> fst (dbCall w1)"
  with s show "fst (ensureReminderTTS h now2 i ou ov w1) = Returns r1" by blast
qed

lemma lined_first_call:
  "ensureReminderTTS utcHost 5 3 None None linedWorld = (Returns spoken, spokenWorld)"
  by (simp add: ensureReminderTTS_def findById_def save_def dbCall_def linedWorld_def lined_def
        spoken_def spokenWorld_def
        newReminder_def alice_def utcHost_def ttsText_def ttsVoice_def orElse_def
        buildNotificationText_def computeTextHash_def upToDate_def markPending_def markReady_def
        synthesizeAndStore_def Let_def)

theorem speech_stage_idempotent_witness:
  "ensureReminderTTS utcHost 5 3 None None linedWorld = (Returns spoken, spokenWorld) \<and>
   audio (tts spoken) = Some \<lparr>data = [73, 68, 51], contentType = ''audio/mpeg'', audio_size = 3\<rparr> \<and>
   \<not> fst (dbCall spokenWorld) \<and>
   fst (ensureReminderTTS utcHost 9 3 None None spokenWorld) = Returns spoken \<and>
   synthLog (snd (ensureReminderTTS utcHost 9 3 None None spokenWorld)) =
     [(''Alice, time to call mum!'', Some ''voice1'')] \<and>
   reminders (snd (ensureReminderTTS utcHost 9 3 None None spokenWorld)) = [spoken]"
proof -
  have a: "audio (tts spoken) = Some \<lparr>data = [73, 68, 51], contentType = ''audio/mpeg'', audio_size = 3\<rparr>"
    by (simp add: spoken_def)
  then have a': "\<exists>a. audio (tts spoken) = Some a \<and> data a \<noteq> []" by simp
  have d: "\<not> fst (dbCall spokenWorld)" by (simp add: dbCall_def spokenWorld_def)
  from speech_stage_idempotent [of 3 linedWorld lined None utcHost None 0 5 spoken spokenWorld 9,
      THEN conjunct2] lined_first_call a' d
  have "synthLog (snd (ensureReminderTTS utcHost 9 3 None None spokenWorld)) = synthLog spokenWorld \<and>
      reminders (snd (ensureReminderTTS utcHost 9 3 None None spokenWorld)) = reminders spokenWorld \<and>
      fst (ensureReminderTTS utcHost 9 3 None None spokenWorld) = Returns spoken"
    by blast
  with lined_first_call a d show ?thesis by (simp add: spokenWorld_def)
qed

section \<open>The states of the speech record\<close>

lemma synthesizeAndStore_throws:
  assumes "synthesizeAndStore h now msg v p w = (Throws e, w')"
    and "find (\<lambda>x. rid x = i) (reminders w) = Some p" and "rid p = i"
    and "tts_status (tts p) = Pending"
  shows "\<exists>r. find (\<lambda>x. rid x = i) (reminders w') = Some r \<and>
             (tts_status (tts r) = Pending \<or> tts_status (tts r) = Failed)"
proof -
  define w0 where "w0 = w\<lparr>synthLog := synthLog w @ [(msg, v)]\<rparr>"
  have f0: "find (\<lambda>x. rid x = i) (reminders w0) = Some p" using assms(2) by (simp add: w0_def)
  show ?thesis
  proof (cases "synthesize h msg v")
    case (Throws e1)
    obtain sr w2 where sv: "save (markFailed p) w0 = (sr, w2)" by (metis surj_pair)
    from assms(1) Throws sv have "w' = w2"
      by (auto simp: synthesizeAndStore_def w0_def Let_def split: outcome.splits)
    with save_find [OF sv f0] assms(3,4) show ?thesis by auto
  next
    case (Returns b)
    obtain sr w2 where sv: "save (markReady b now p) w0 = (sr, w2)" by (metis surj_pair)
    from assms(1) Returns sv obtain e1 where sr: "sr = Throws e1"
      by (auto simp: synthesizeAndStore_def w0_def Let_def split: outcome.splits)
    from save_find [OF sv f0] sr assms(3)
    have f2: "find (\<lambda>x. rid x = i) (reminders w2) = Some p" by auto
    obtain sr3 w3 where sv3: "save (markFailed (markReady b now p)) w2 = (sr3, w3)"
      by (metis surj_pair)
    from assms(1) Returns sv sr sv3 have "w' = w3"
      by (auto simp: synthesizeAndStore_def w0_def Let_def split: outcome.splits)
    with save_find [OF sv3 f2] assms(3,4) show ?thesis by auto
  qed
qed

lemma synthesizeAndStore_log:
  "synthesizeAndStore h now msg v p w = (res, w') \<Longrightarrow> synthLog w' = synthLog w @ [(msg, v)]"
  unfolding synthesizeAndStore_def Let_def
  by (auto split: outcome.splits prod.splits dest!: save_frame)

lemma ensureReminderTTS_throws:
  assumes "ensureReminderTTS h now i ou ov w = (Throws e, w')" and "synthLog w' \<noteq> synthLog w"
  shows "\<exists>r. find (\<lambda>x. rid x = i) (reminders w') = Some r \<and>
             (tts_status (tts r) = Pending \<or> tts_status (tts r) = Failed)"
proof -
  obtain res1 w1 where fb: "findById i w = (res1, w1)" by (metis surj_pair)
  from findById_result [OF fb] findById_frame [OF fb]
  have w1: "reminders w1 = reminders w" "synthLog w1 = synthLog w"
    and r1: "res1 = Returns (find (\<lambda>r. rid r = i) (reminders w)) \<or> (\<exists>e. res1 = Throws e)" by auto
  from assms fb w1 obtain r0 where res1: "res1 = Returns (Some r0)"
    by (auto simp: ensureReminderTTS_def split: outcome.splits option.splits)
  with r1 have f0: "find (\<lambda>r. rid r = i) (reminders w) = Some r0" by simp
  have ri: "rid r0 = i" using find_rid [OF f0] .
  define msg where "msg = ttsText r0 ou"
  define v where "v = ttsVoice h r0 ov"
  define hash where "hash = computeTextHash msg v"
  have nup: "\<not> upToDate hash r0"
    using assms fb res1 w1 by (auto simp: ensureReminderTTS_def Let_def msg_def v_def hash_def)
  obtain sr w2 where sv: "save (markPending v hash r0) w1 = (sr, w2)" by (metis surj_pair)
  have l2: "synthLog w2 = synthLog w" using save_frame [OF sv] w1 by simp
  have f1: "find (\<lambda>x. rid x = i) (reminders w1) = Some r0" using f0 w1 by simp
  from assms fb res1 nup sv l2 have sr: "sr = Returns ()"
    and sy: "synthesizeAndStore h now msg v (markPending v hash r0) w2 = (Throws e, w')"
    by (auto simp: ensureReminderTTS_def Let_def msg_def v_def hash_def split: outcome.splits)
  from save_find [OF sv f1] sr ri
  have f2: "find (\<lambda>x. rid x = i) (reminders w2) = Some (markPending v hash r0)" by auto
  show ?thesis
    by (rule synthesizeAndStore_throws [OF sy f2]) (simp_all add: ri)
qed

lemma lineStage_frame:
  "lineStage h u rem = (rem2, src) \<Longrightarrow>
     tts rem2 = tts rem \<and> rid rem2 = rid rem \<and> startDate rem2 = startDate rem"
  by (auto simp: lineStage_def Let_def split: if_splits outcome.splits prod.splits)

lemma processBackgroundAI_without_start:
  assumes "find (\<lambda>x. rid x = i) (reminders w) = Some rem" and "startDate rem = None"
    and "type rem \<noteq> Task \<or> isManualSchedule rem"
  shows "map_option tts (find (\<lambda>x. rid x = i)
            (reminders (snd (processBackgroundAI h nowAI nowSlot nowTTS i optUser w)))) = Some (tts rem) \<and>
         synthLog (snd (processBackgroundAI h nowAI nowSlot nowTTS i optUser w)) = synthLog w"
proof -
  obtain res1 w1 where fb: "findById i w = (res1, w1)" by (metis surj_pair)
  from findById_result [OF fb] findById_frame [OF fb]
  have w1: "reminders w1 = reminders w" "synthLog w1 = synthLog w"
    and r1: "res1 = Returns (find (\<lambda>r. rid r = i) (reminders w)) \<or> (\<exists>e. res1 = Throws e)" by auto
  have f1: "find (\<lambda>x. rid x = i) (reminders w1) = Some rem" using assms(1) w1 by simp
  from r1 show ?thesis
  proof
    assume "\<exists>e. res1 = Throws e"
    with fb f1 w1 show ?thesis by (auto simp: processBackgroundAI_def)
  next
    assume "res1 = Returns (find (\<lambda>r. rid r = i) (reminders w))"
    with assms(1) have res1: "res1 = Returns (Some rem)" by simp
    have st: "scheduleStage h nowAI nowSlot rem w1 = ((rem, None, False), w1)"
      using assms(3) by (auto simp: scheduleStage_def)
    define u where "u = (case optUser of Some x \<Rightarrow> x | None \<Rightarrow> user rem)"
    obtain rem2 lsrc where ls: "lineStage h u rem = (rem2, lsrc)" by (metis surj_pair)
    from lineStage_frame [OF ls] assms(2) find_rid [OF assms(1)]
    have t2: "tts rem2 = tts rem" and i2: "rid rem2 = i" and s2: "startDate rem2 = None" by auto
    obtain sr w3 where sv: "save rem2 w1 = (sr, w3)" by (metis surj_pair)
    from save_find [OF sv f1 i2] t2
    have f3: "map_option tts (find (\<lambda>x. rid x = i) (reminders w3)) = Some (tts rem)" by auto
    have l3: "synthLog w3 = synthLog w" using save_frame [OF sv] w1 by simp
    from fb res1 st ls sv s2 f3 l3 show ?thesis
      by (cases sr) (simp_all add: processBackgroundAI_def u_def [symmetric] Let_def)
  qed
qed

section \<open>The distance gate\<close>

lemma atan2_sin_cos:
  assumes "0 \<le> x" and "x \<le> pi / 2"
  shows "atan2 (sin x) (cos x) = x"
proof (cases "x = pi / 2")
  case True
  show ?thesis unfolding True atan2_def by simp
next
  case False
  with assms have lt: "x < pi / 2" by simp
  have "- (pi / 2) < x" using assms(1) pi_gt_zero by linarith
  then have c: "0 < cos x" using lt by (simp add: cos_gt_zero_pi)
  have "arctan (sin x / cos x) = x"
    using arctan_tan [of x] \<open>- (pi / 2) < x\<close> lt by (simp add: tan_def)
  with c show ?thesis by (simp add: atan2_def)
qed

text \<open>The cosine of the central angle lies between -1 and 1.\<close>

lemma central_cos_bounds:
  fixes p q l :: real
  defines "k \<equiv> sin p * sin q + cos p * cos q * cos l"
  shows "- 1 \<le> k" and "k \<le> 1"
proof -
  define a where "a = (1 + cos l) / 2"
  define b where "b = (1 - cos l) / 2"
  define X where "X = a * cos (p - q)"
  define Y where "Y = b * cos (p + q)"
  have e: "k = X - Y"
    by (simp add: k_def X_def Y_def a_def b_def cos_add cos_diff field_simps)
  have ab: "a + b = 1" by (simp add: a_def b_def field_simps)
  have "0 \<le> 1 + cos l" using cos_ge_minus_one [of l] by linarith
  then have a0: "0 \<le> a" by (simp add: a_def)
  have "0 \<le> 1 - cos l" using cos_le_one [of l] by linarith
  then have b0: "0 \<le> b" by (simp add: b_def)
  have x1: "X \<le> a" unfolding X_def using mult_left_mono [OF cos_le_one [of "p - q"] a0] by simp
  have x2: "- a \<le> X" unfolding X_def using mult_left_mono [OF cos_ge_minus_one [of "p - q"] a0] by simp
  have y1: "Y \<le> b" unfolding Y_def using mult_left_mono [OF cos_le_one [of "p + q"] b0] by simp
  have y2: "- b \<le> Y" unfolding Y_def using mult_left_mono [OF cos_ge_minus_one [of "p + q"] b0] by simp
  show "- 1 \<le> k" unfolding e using x2 y1 ab by linarith
  show "k \<le> 1" unfolding e using x1 y2 ab by linarith
qed

text \<open>The haversine of the central angle, and the angle recovered from it.\<close>

lemma haversine_of_central_angle:
  fixes p q l :: real
  shows "sin ((q - p) / 2) * sin ((q - p) / 2) + cos p * cos q * sin (l / 2) * sin (l / 2) =
         (1 - (sin p * sin q + cos p * cos q * cos l)) / 2"
proof -
  have hv: "sin (x / 2) * sin (x / 2) = (1 - cos x) / 2" for x :: real
  proof -
    have "2 * (x / 2) = x" by simp
    with cos_double_sin [of "x / 2"] have "cos x = 1 - 2 * (sin (x / 2))\<^sup>2" by simp
    then show ?thesis by (simp add: power2_eq_square)
  qed
  have s1: "sin ((q - p) / 2) * sin ((q - p) / 2) = (1 - cos (q - p)) / 2" by (rule hv)
  have s2: "sin (l / 2) * sin (l / 2) = (1 - cos l) / 2" by (rule hv)
  have "sin ((q - p) / 2) * sin ((q - p) / 2) + cos p * cos q * sin (l / 2) * sin (l / 2) =
        (1 - cos (q - p)) / 2 + cos p * cos q * ((1 - cos l) / 2)"
    unfolding mult.assoc s1 s2 by simp
  also have "\<dots> = (1 - (sin p * sin q + cos p * cos q * cos l)) / 2"
    by (simp add: cos_diff field_simps)
  finally show ?thesis .
qed

lemma angle_of_haversine:
  assumes "- 1 \<le> k" and "k \<le> 1"
  shows "2 * atan2 (sqrt ((1 - k) / 2)) (sqrt (1 - (1 - k) / 2)) = arccos k"
proof -
  define t where "t = arccos k / 2"
  have b: "0 \<le> arccos k" "arccos k \<le> pi" "cos (arccos k) = k"
    using arccos [OF assms] by simp_all
  have t0: "0 \<le> t" and t1: "t \<le> pi / 2" using b by (simp_all add: t_def)
  have c2: "cos (2 * t) = k" using b(3) by (simp add: t_def)
  have st: "0 \<le> sin t" using t0 t1 pi_gt_zero by (intro sin_ge_zero) linarith+
  have ct: "0 \<le> cos t" using t0 t1 pi_gt_zero by (intro cos_ge_zero) linarith+
  have "(sin t)\<^sup>2 = (1 - k) / 2" using cos_double_sin [of t] c2 by (simp add: field_simps)
  then have s: "sqrt ((1 - k) / 2) = sin t" using st by (metis real_sqrt_abs abs_of_nonneg)
  have "(cos t)\<^sup>2 = 1 - (1 - k) / 2" using cos_double_cos [of t] c2 by (simp add: field_simps)
  then have c: "sqrt (1 - (1 - k) / 2) = cos t" using ct by (metis real_sqrt_abs abs_of_nonneg)
  show ?thesis unfolding s c atan2_sin_cos [OF t0 t1] by (simp add: t_def)
qed

lemma haversine_exact:
  assumes "exactArithmetic h"
  shows "haversineMeters h lat1 lon1 lat2 lon2 = Num (greatCircleMeters lat1 lon1 lat2 lon2)"
proof -
  define p where "p = lat1 * pi / 180"
  define q where "q = lat2 * pi / 180"
  define l where "l = (lon2 - lon1) * pi / 180"
  define k where "k = sin p * sin q + cos p * cos q * cos l"
  have kb: "- 1 \<le> k" "k \<le> 1" unfolding k_def by (rule central_cos_bounds)+
  have ex: "fl h = (\<lambda>x. x)" "Math_PI h = pi" "Math_sin h = sin" "Math_cos h = cos"
    "Math_sqrt h = sqrt" "Math_atan2 h = atan2"
    using assms by (simp_all add: exactArithmetic_def)
  have d1: "(lat2 - lat1) * pi / 180 / 2 = (q - p) / 2" by (simp add: p_def q_def field_simps)
  have a: "sin ((q - p) / 2) * sin ((q - p) / 2) + cos p * cos q * sin (l / 2) * sin (l / 2) = (1 - k) / 2"
    unfolding k_def by (rule haversine_of_central_angle)
  have a0: "\<not> (1 - k) / 2 < 0" "\<not> 1 - (1 - k) / 2 < 0" using kb by simp_all
  have "haversineMeters h lat1 lon1 lat2 lon2 =
      Num (6371000 * (2 * atan2 (sqrt ((1 - k) / 2)) (sqrt (1 - (1 - k) / 2))))"
    unfolding haversineMeters_def toRad_def Let_def ex d1
      p_def [symmetric] q_def [symmetric] l_def [symmetric] a
    using a0 by simp
  also have "\<dots> = Num (6371000 * arccos k)" by (simp only: angle_of_haversine [OF kb])
  also have "\<dots> = Num (greatCircleMeters lat1 lon1 lat2 lon2)"
    by (simp add: greatCircleMeters_def k_def p_def q_def l_def)
  finally show ?thesis .
qed







lemma parseInt_60: "parseInt h ''60'' = Num (fl h 60)"
  by (simp add: parseInt_def isSpace_def isDigit_def digitsValue_def)

lemma MAX_METERS_default:
  "LOCATION_MAX_TRIGGER_METERS h = None \<or> LOCATION_MAX_TRIGGER_METERS h = Some [] \<Longrightarrow>
     MAX_METERS h = Num (max 10 (fl h 60))"
  by (auto simp: MAX_METERS_def orElse_def parseInt_60)


lemma MAX_METERS_no_digit:
  assumes "LOCATION_MAX_TRIGGER_METERS h = Some (c # cs)"
    and "\<not> isDigit c" and "\<not> isSpace c" and "c \<noteq> CHR ''-''" and "c \<noteq> CHR ''+''"
  shows "MAX_METERS h = NaN"
  using assms by (simp add: MAX_METERS_def orElse_def parseInt_def)

lemma distanceGate_numeric:
  assumes "p_lat p = Some plat" and "p_lng p = Some plng"
  shows "distanceGate h req p =
     (if greater (Math_round (haversineMeters h (req_lat req) (req_lng req) plat plng)) (MAX_METERS h)
      then Inl (too_far (Some (Math_round (haversineMeters h (req_lat req) (req_lng req) plat plng)))
                  (MAX_METERS h))
      else Inr (Math_round (haversineMeters h (req_lat req) (req_lng req) plat plng)))"
  using assms by (simp add: distanceGate_def Let_def)




lemma exact_utcHost: "exactArithmetic utcHost"
  by (simp add: exactArithmetic_def utcHost_def)

lemma arc_of_metres:
  assumes "0 \<le> m" and "m \<le> 1000"
  shows "m * 180 / (6371000 * pi) * pi / 180 = m / 6371000"
    and "arccos (cos (m / 6371000)) = m / 6371000"
proof -
  show "m * 180 / (6371000 * pi) * pi / 180 = m / 6371000" by simp
  have "m / 6371000 \<le> 2" using assms by simp
  then have "m / 6371000 \<le> pi" using pi_ge_two by linarith
  then show "arccos (cos (m / 6371000)) = m / 6371000" using assms(1) by (simp add: arccos_cos)
qed

lemma greatCircle_north:
  assumes "0 \<le> m" and "m \<le> 1000"
  shows "greatCircleMeters 0 0 (m * 180 / (6371000 * pi)) 0 = m"
  using arc_of_metres [OF assms] by (simp add: greatCircleMeters_def)




lemma MAX_METERS_utcHost: "MAX_METERS utcHost = Num 60"
  by (simp add: MAX_METERS_default utcHost_def)



lemma exact_hosts: "exactArithmetic wideHost" "exactArithmetic garbledHost" "exactArithmetic nearHost"
  using exact_utcHost by (simp_all add: exactArithmetic_def wideHost_def garbledHost_def nearHost_def)


section \<open>Outcomes of one candidate\<close>

lemma antiSpam_iff:
  "antiSpam now r = Some x \<longleftrightarrow>
     (\<exists>t. lastTriggeredAt r = Some t \<and> now - t < 90 * 60000 \<and> x = of_int (now - t) / 60000)"
proof -
  have "(of_int k :: rat) / 60000 < 90 \<longleftrightarrow> k < 90 * 60000" for k :: int
  proof -
    have "(of_int k :: rat) / 60000 < 90 \<longleftrightarrow> (of_int k :: rat) < of_int (90 * 60000)"
      by (simp add: pos_divide_less_eq)
    also have "\<dots> \<longleftrightarrow> k < 90 * 60000" by (simp only: of_int_less_iff)
    finally show ?thesis .
  qed
  then show ?thesis
    by (auto simp: antiSpam_def Let_def split: option.splits)
qed

lemma distanceGate_reason:
  "distanceGate h req p = Inl reason \<Longrightarrow> \<exists>a b. reason = too_far a b"
  by (auto simp: distanceGate_def Let_def split: option.splits if_splits prod.splits)

lemma filters_anti_spam:
  "filters h req now r = Inl (anti_spam_window x) \<longleftrightarrow> \<not> dayMismatch h now r \<and> antiSpam now r = Some x"
  by (auto simp: filters_def Let_def split: option.splits outcome.splits sum.splits
        dest: distanceGate_reason)

lemma filters_day_mismatch:
  "filters h req now r = Inl day_mismatch \<longleftrightarrow> dayMismatch h now r"
  by (auto simp: filters_def Let_def split: option.splits outcome.splits sum.splits
        dest: distanceGate_reason)

lemma findByIdAndUpdate_result:
  assumes "findByIdAndUpdate i upd w = (res, w')"
  shows "(\<exists>e. res = Throws e) \<or> res = Returns None \<or>
         (\<exists>r0. find (\<lambda>x. rid x = i) (reminders w) = Some r0 \<and> res = Returns (Some (upd r0)))"
  using assms
  by (auto simp: findByIdAndUpdate_def dbCall_def Let_def split: list.splits if_splits option.splits)

lemma fire_result:
  assumes "fire h req now r p k w = (Returns res, w')"
  shows "\<exists>t. res = Triggered (rid r) t"
proof -
  obtain res1 w1 where fu: "findByIdAndUpdate (rid r) (triggerUpdate now r p) w = (res1, w1)"
    by (metis surj_pair)
  from assms fu obtain u0 where res1: "res1 = Returns (Some u0)"
    by (auto simp: fire_def split: outcome.splits option.splits)
  from findByIdAndUpdate_result [OF fu] res1 obtain r0 where
    "find (\<lambda>x. rid x = rid r) (reminders w) = Some r0" and u0: "u0 = triggerUpdate now r p r0" by auto
  then have "rid u0 = rid r" using find_rid [of "rid r" "reminders w" r0] by (simp add: triggerUpdate_def)
  with assms fu res1 show ?thesis
    by (auto simp: fire_def Let_def split: prod.splits if_splits outcome.splits)
qed

lemma scanOne_skipped:
  "filters h req now r = Inl reason \<Longrightarrow> scanOne h req now r w = (Returns (Skipped (rid r) reason), w)"
  by (simp add: scanOne_def)

lemma scanOne_passed:
  assumes "filters h req now r = Inr (p, k)" and "scanOne h req now r w = (Returns res, w')"
  shows "res = Skipped (rid r) (collision 360000) \<or> (\<exists>t. res = Triggered (rid r) t)"
  using assms
  by (auto simp: scanOne_def split: prod.splits outcome.splits bool.splits if_splits dest: fire_result)

lemma hasCollision_result:
  "hasCollisionWithinFiveMin usr now w =
     (if fst (dbCall w) then (Throws ''Reminder.find rejected'', snd (dbCall w))
      else (Returns (\<exists>c \<in> set (reminders w). collides usr now c), snd (dbCall w)))"
proof -
  obtain b w1 where d: "dbCall w = (b, w1)" by (metis surj_pair)
  have r: "reminders w1 = reminders w" using dbCall_frame [OF d] by simp
  have e: "filter P xs \<noteq> [] \<longleftrightarrow> (\<exists>c \<in> set xs. P c)" for P and xs :: "reminder list"
    by (simp add: filter_empty_conv)
  have p: "(\<lambda>c. uid (user c) = usr \<and> (type c = Task \<or> type c = Meeting) \<and>
           (case startDate c of None \<Rightarrow> False
            | Some s \<Rightarrow> now - 5 * 60 * 1000 \<le> s \<and> s \<le> now + 5 * 60 * 1000) \<and> \<not> isCompleted c) =
        collides usr now"
    by (rule ext) (auto simp: collides_def split: option.splits)
  show ?thesis
    unfolding hasCollisionWithinFiveMin_def Let_def d p by (simp add: r e)
qed

section \<open>What a scan keeps\<close>

lemma steady_refl [simp]: "steady w w"
  by (simp add: steady_def)

lemma steady_trans: "steady w w1 \<Longrightarrow> steady w1 w2 \<Longrightarrow> steady w w2"
  by (simp add: steady_def)

lemma steady_synthLog [simp]:
  "steady w (w1\<lparr>synthLog := x\<rparr>) = steady w w1" "steady (w\<lparr>synthLog := x\<rparr>) w1 = steady w w1"
  by (simp_all add: steady_def)

lemma rid_triggerUpdate [simp]: "rid (triggerUpdate now r p x) = rid x"
  by (simp add: triggerUpdate_def)

lemma dbCall_steady: "dbCall w = (b, w') \<Longrightarrow> steady w w' \<and> (faults w = [] \<longrightarrow> \<not> b)"
  by (auto simp: dbCall_def steady_def split: list.splits)

lemma save_steady: "save r w = (res, w') \<Longrightarrow> steady w w' \<and> (faults w = [] \<longrightarrow> res = Returns ())"
proof -
  assume a: "save r w = (res, w')"
  obtain b w1 where d: "dbCall w = (b, w1)" by (metis surj_pair)
  have m: "map (rid \<circ> (\<lambda>x. if rid x = rid r then r else x)) xs = map rid xs" for xs
    by (induction xs) auto
  from a d dbCall_steady [OF d] show ?thesis
    by (auto simp: save_def Let_def steady_def m split: if_splits)
qed

lemma findById_steady:
  "findById i w = (res, w') \<Longrightarrow>
     steady w w' \<and> (faults w = [] \<longrightarrow> res = Returns (find (\<lambda>r. rid r = i) (reminders w)))"
proof -
  assume a: "findById i w = (res, w')"
  obtain b w1 where d: "dbCall w = (b, w1)" by (metis surj_pair)
  from a d dbCall_steady [OF d] dbCall_frame [OF d] show ?thesis
    by (auto simp: findById_def Let_def split: if_splits)
qed

lemma createNotification_steady:
  "createNotification n w = (res, w') \<Longrightarrow> steady w w'"
proof -
  assume a: "createNotification n w = (res, w')"
  obtain b w1 where d: "dbCall w = (b, w1)" by (metis surj_pair)
  from a d dbCall_steady [OF d] show ?thesis
    by (auto simp: createNotification_def Let_def steady_def split: if_splits)
qed

lemma hasCollision_steady:
  "hasCollisionWithinFiveMin usr now w = (res, w') \<Longrightarrow>
     steady w w' \<and> (faults w = [] \<longrightarrow> (\<exists>b. res = Returns b))"
proof -
  assume a: "hasCollisionWithinFiveMin usr now w = (res, w')"
  obtain b w1 where d: "dbCall w = (b, w1)" by (metis surj_pair)
  from a d dbCall_steady [OF d] show ?thesis
    by (auto simp: hasCollision_result split: if_splits)
qed

lemma findByIdAndUpdate_steady:
  assumes "findByIdAndUpdate i (triggerUpdate now r p) w = (res, w')"
  shows "steady w w' \<and>
         (faults w = [] \<and> i \<in> set (map rid (reminders w)) \<longrightarrow> (\<exists>u. res = Returns (Some u)))"
proof -
  obtain b w1 where d: "dbCall w = (b, w1)" by (metis surj_pair)
  have m: "map (rid \<circ> (\<lambda>x. if rid x = i then triggerUpdate now r p x else x)) xs = map rid xs" for xs
    by (induction xs) auto
  have f: "i \<in> set (map rid xs) \<Longrightarrow> find (\<lambda>x. rid x = i) xs \<noteq> None" for xs
    by (induction xs) auto
  from assms d dbCall_steady [OF d] dbCall_frame [OF d] f [of "reminders w"] show ?thesis
    by (auto simp: findByIdAndUpdate_def Let_def steady_def m split: if_splits option.splits)
qed

lemma synthesizeAndStore_steady:
  "synthesizeAndStore h now msg v p w = (res, w') \<Longrightarrow> steady w w'"
  unfolding synthesizeAndStore_def Let_def
  by (auto split: outcome.splits prod.splits dest!: save_steady intro: steady_trans)

lemma ensureReminderTTS_steady:
  assumes "ensureReminderTTS h now i ou ov w = (res, w')"
  shows "steady w w'"
proof -
  obtain res1 w1 where fb: "findById i w = (res1, w1)" by (metis surj_pair)
  have s1: "steady w w1" using findById_steady [OF fb] by simp
  have "steady w1 w'"
    using assms unfolding ensureReminderTTS_def fb
    by (auto simp: Let_def split: outcome.splits option.splits if_splits prod.splits
          dest!: save_steady synthesizeAndStore_steady intro: steady_trans)
  with s1 show ?thesis by (rule steady_trans)
qed

lemma pollTTS_steady: "pollTTS h now i u n w = (res, w') \<Longrightarrow> steady w w'"
proof (induction n arbitrary: w)
  case 0
  then show ?case by simp
next
  case (Suc n)
  obtain r1 w1 where e: "ensureReminderTTS h now i (Some u) None w = (r1, w1)" by (metis surj_pair)
  have s1: "steady w w1" using ensureReminderTTS_steady [OF e] .
  from Suc.prems e have "w' = w1 \<or> pollTTS h now i u n w1 = (res, w')"
    by (auto split: outcome.splits option.splits)
  then show ?case using s1 Suc.IH [of w1] by (auto intro: steady_trans)
qed

lemma save_steady_snd: "steady w (snd (save r w))"
  using save_steady [of r w] by (metis prod.collapse)

lemma createNotification_steady_snd: "steady w (snd (createNotification n w))"
  using createNotification_steady [of n w] by (metis prod.collapse)

lemma fire_steady:
  assumes "fire h req now r p k w = (res, w')"
  shows "steady w w' \<and>
         (faults w = [] \<and> rid r \<in> set (map rid (reminders w)) \<longrightarrow> (\<exists>x. res = Returns x))"
proof -
  obtain res1 w1 where fu: "findByIdAndUpdate (rid r) (triggerUpdate now r p) w = (res1, w1)"
    by (metis surj_pair)
  from findByIdAndUpdate_steady [OF fu] have s1: "steady w w1"
    and ok: "faults w = [] \<and> rid r \<in> set (map rid (reminders w)) \<longrightarrow> (\<exists>u. res1 = Returns (Some u))"
    by auto
  show ?thesis
  proof (cases "\<exists>u. res1 = Returns (Some u)")
    case False
    with assms fu have "w' = w1" "\<not> (faults w = [] \<and> rid r \<in> set (map rid (reminders w)))"
      using ok by (auto simp: fire_def split: outcome.splits option.splits)
    with s1 show ?thesis by blast
  next
    case True
    then obtain u0 where res1: "res1 = Returns (Some u0)" by blast
    define lw where "lw = (if geminiLoaded h
                  then (case generateLine h u0 (user u0) of
                          Returns line \<Rightarrow>
                            if line \<noteq> []
                            then (let upd1 = u0\<lparr>aiNotificationLine := Some line\<rparr>
                                  in (upd1, snd (save upd1 w1)))
                            else (u0, w1)
                        | Throws e \<Rightarrow> (u0, w1))
                  else (u0, w1))"
    obtain updated w2 where lw': "lw = (updated, w2)" by (metis surj_pair)
    have s2: "steady w1 w2"
      using lw' unfolding lw_def
      by (auto simp: Let_def save_steady_snd split: if_splits outcome.splits)
    define hw where "hw = (case ensureReminderTTS h now (rid updated) (Some (user updated)) None w2 of
                    (Throws e, w') \<Rightarrow> (None, w')
                  | (Returns ensured, w') \<Rightarrow>
                      (case textHash (tts ensured) of
                         Some x \<Rightarrow> (Some x, w')
                       | None \<Rightarrow> pollTTS h now (rid updated) (user updated) (pollBudget h) w'))"
    obtain hash w3 where hw': "hw = (hash, w3)" by (metis surj_pair)
    have s3: "steady w2 w3"
      using hw' unfolding hw_def
      by (auto split: prod.splits outcome.splits option.splits
            dest!: ensureReminderTTS_steady pollTTS_steady intro: steady_trans)
    have "\<exists>x. res = Returns x \<and> (\<exists>n. w' = snd (createNotification n w3))"
      using assms unfolding fire_def fu res1
      by (simp add: Let_def lw_def [symmetric] lw' hw_def [symmetric] hw') blast
    then obtain x n where "res = Returns x" "w' = snd (createNotification n w3)" by blast
    with s1 s2 s3 createNotification_steady_snd [of w3 n] show ?thesis
      by (auto intro: steady_trans)
  qed
qed

lemma scanOne_steady:
  assumes "scanOne h req now r w = (res, w')"
  shows "steady w w' \<and>
         (faults w = [] \<and> rid r \<in> set (map rid (reminders w)) \<longrightarrow> (\<exists>x. res = Returns x))"
proof (cases "filters h req now r")
  case (Inl reason)
  with assms show ?thesis by (auto simp: scanOne_skipped)
next
  case (Inr pk)
  obtain p k where pk: "pk = (p, k)" by (cases pk)
  obtain c w1 where hc: "hasCollisionWithinFiveMin (req_user req) now w = (c, w1)"
    by (metis surj_pair)
  from hasCollision_steady [OF hc] have s1: "steady w w1"
    and ok: "faults w = [] \<longrightarrow> (\<exists>b. c = Returns b)" by auto
  show ?thesis
  proof (cases c)
    case (Throws e)
    with assms Inr pk hc ok s1 show ?thesis by (auto simp: scanOne_def)
  next
    case (Returns b)
    show ?thesis
    proof (cases b)
      case True
      with assms Inr pk hc Returns s1 show ?thesis by (auto simp: scanOne_def)
    next
      case False
      with assms Inr pk hc Returns have f: "fire h req now r p k w1 = (res, w')"
        by (simp add: scanOne_def)
      from s1 have "faults w = [] \<and> rid r \<in> set (map rid (reminders w)) \<longrightarrow>
          faults w1 = [] \<and> rid r \<in> set (map rid (reminders w1))"
        by (auto simp: steady_def)
      with fire_steady [OF f] s1 show ?thesis by (auto intro: steady_trans)
    qed
  qed
qed

lemma scanOne_id:
  assumes "scanOne h req now r w = (Returns res, w')"
  shows "resultId res = rid r"
proof (cases "filters h req now r")
  case (Inl reason)
  with assms show ?thesis by (auto simp: scanOne_skipped)
next
  case (Inr pk)
  obtain p k where pk: "pk = (p, k)" by (cases pk)
  from scanOne_passed [OF Inr [unfolded pk] assms] show ?thesis by auto
qed

lemma scanLoop_ids:
  "scanLoop h req now rs out w = (Returns out', w') \<Longrightarrow>
     map resultId out' = map resultId out @ map rid rs"
proof (induction rs arbitrary: out w)
  case Nil
  then show ?case by simp
next
  case (Cons r rs)
  obtain res w1 where so: "scanOne h req now r w = (res, w1)" by (metis surj_pair)
  from Cons.prems so obtain x where x: "res = Returns x"
    and l: "scanLoop h req now rs (out @ [x]) w1 = (Returns out', w')"
    by (auto split: outcome.splits)
  from scanOne_id [OF so [unfolded x]] Cons.IH [OF l] show ?case by simp
qed

lemma scanLoop_completes:
  "faults w = [] \<Longrightarrow> set (map rid rs) \<subseteq> set (map rid (reminders w)) \<Longrightarrow>
     \<exists>out' w'. scanLoop h req now rs out w = (Returns out', w')"
proof (induction rs arbitrary: out w)
  case Nil
  then show ?case by simp
next
  case (Cons r rs)
  obtain res w1 where so: "scanOne h req now r w = (res, w1)" by (metis surj_pair)
  from scanOne_steady [OF so] Cons.prems obtain x where x: "res = Returns x" and s: "steady w w1"
    by auto
  from s Cons.prems have "faults w1 = []" "set (map rid rs) \<subseteq> set (map rid (reminders w1))"
    by (auto simp: steady_def)
  from Cons.IH [OF this] so x show ?case by simp
qed

section \<open>The loop over the candidates\<close>

lemma scanAndTrigger_unfold:
  "scanAndTrigger h req now w =
     (if fst (dbCall w) then (Throws ''Reminder.find rejected'', snd (dbCall w))
      else scanLoop h req now (filter (candidate req) (reminders w)) [] (snd (dbCall w)))"
proof -
  obtain b w1 where d: "dbCall w = (b, w1)" by (metis surj_pair)
  have "reminders w1 = reminders w" using dbCall_frame [OF d] by simp
  then show ?thesis by (simp add: scanAndTrigger_def Let_def d)
qed

lemma dayMismatch_host:
  "getDay h' = getDay h \<Longrightarrow> dayMismatch h' now r = dayMismatch h now r"
  by (simp add: dayMismatch_def getDayString_def cong: option.case_cong if_cong)

lemma filters_places_error:
  "\<not> dayMismatch h now r \<Longrightarrow> antiSpam now r = None \<Longrightarrow> title r \<noteq> [] \<Longrightarrow>
   nearbyBestPlace h (req_lat req) (req_lng req)
     (case req_radius req of None \<Rightarrow> 500 | Some x \<Rightarrow> if x = 0 then 500 else x) (title r) = Throws e \<Longrightarrow>
   filters h req now r = Inl (places_error e)"
  by (simp add: filters_def Let_def)

lemma scanLoop_append:
  "scanLoop h req now (cs @ rs) out w =
     (case scanLoop h req now cs out w of
        (Throws e, w1) \<Rightarrow> (Throws e, w1)
      | (Returns out1, w1) \<Rightarrow> scanLoop h req now rs out1 w1)"
  by (induction cs arbitrary: out w) (auto split: prod.splits outcome.splits)

text \<open>
  The entries of a result list, one by one: entry \<open>i\<close> is what the loop body returned for
  candidate \<open>i\<close>, in a state that any property the loop body preserves still holds of.
\<close>

lemma scanLoop_nth:
  assumes "scanLoop h req now rs out w = (Returns out', w')"
    and "P w"
    and "\<And>r v res v'. P v \<Longrightarrow> scanOne h req now r v = (res, v') \<Longrightarrow> P v'"
  shows "length out' = length out + length rs \<and> take (length out) out' = out \<and>
         (\<forall>i<length rs. \<exists>wi wi'. P wi \<and>
            scanOne h req now (rs ! i) wi = (Returns (out' ! (length out + i)), wi'))"
  using assms(1,2)
proof (induction rs arbitrary: out w)
  case Nil
  then show ?case by simp
next
  case (Cons r rs)
  obtain res w1 where so: "scanOne h req now r w = (res, w1)" by (metis surj_pair)
  from Cons.prems(1) so obtain x where x: "res = Returns x"
    and l: "scanLoop h req now rs (out @ [x]) w1 = (Returns out', w')"
    by (auto split: outcome.splits)
  have p1: "P w1" using assms(3) [OF Cons.prems(2) so] .
  from Cons.IH [OF l p1] have len: "length out' = length out + 1 + length rs"
    and tk: "take (Suc (length out)) out' = out @ [x]"
    and nth: "\<forall>i<length rs. \<exists>wi wi'. P wi \<and>
            scanOne h req now (rs ! i) wi = (Returns (out' ! (Suc (length out) + i)), wi')"
    by simp_all
  have "out' ! length out = (take (Suc (length out)) out') ! length out" by simp
  also have "\<dots> = x" unfolding tk by simp
  finally have x0: "out' ! length out = x" .
  have "take (length out) out' = take (length out) (take (Suc (length out)) out')" by simp
  also have "\<dots> = out" unfolding tk by simp
  finally have tk0: "take (length out) out' = out" .
  have "\<exists>wi wi'. P wi \<and>
            scanOne h req now ((r # rs) ! i) wi = (Returns (out' ! (length out + i)), wi')"
    if "i < length (r # rs)" for i
  proof (cases i)
    case 0
    with so x x0 Cons.prems(2) show ?thesis by auto
  next
    case (Suc j)
    with that have "j < length rs" by simp
    with nth Suc show ?thesis by simp
  qed
  with len tk0 show ?case by simp
qed

lemma scanAndTrigger_nth:
  assumes "scanAndTrigger h req now w = (Returns out, w')"
    and "P (snd (dbCall w))"
    and "\<And>r v res v'. P v \<Longrightarrow> scanOne h req now r v = (res, v') \<Longrightarrow> P v'"
    and "i < length (filter (candidate req) (reminders w))"
  shows "length out = length (filter (candidate req) (reminders w)) \<and>
         (\<exists>wi wi'. P wi \<and>
            scanOne h req now (filter (candidate req) (reminders w) ! i) wi = (Returns (out ! i), wi'))"
proof -
  from assms(1) have "scanLoop h req now (filter (candidate req) (reminders w)) [] (snd (dbCall w)) =
      (Returns out, w')"
    by (simp add: scanAndTrigger_unfold split: if_splits)
  from scanLoop_nth [of h req now _ "[]" _ out w' P, OF this assms(2,3)] assms(4)
  show ?thesis by simp
qed

lemma find_None_iff: "find (\<lambda>x. rid x = i) xs = None \<longleftrightarrow> i \<notin> set (map rid xs)"
  by (induction xs) auto

lemma findByIdAndUpdate_cases:
  "findByIdAndUpdate i upd w =
     (if fst (dbCall w) then (Throws ''findByIdAndUpdate rejected'', snd (dbCall w))
      else case find (\<lambda>r. rid r = i) (reminders w) of
             None \<Rightarrow> (Returns None, snd (dbCall w))
           | Some r \<Rightarrow> (Returns (Some (upd r)),
                (snd (dbCall w))\<lparr>reminders := map (\<lambda>x. if rid x = i then upd x else x) (reminders w)\<rparr>))"
proof -
  obtain b w1 where d: "dbCall w = (b, w1)" by (metis surj_pair)
  have "reminders w1 = reminders w" using dbCall_frame [OF d] by simp
  then show ?thesis by (simp add: findByIdAndUpdate_def d split: option.splits)
qed

text \<open>A trigger fails only in its update: when the update rejects or the document is gone.\<close>

lemma fire_outcome:
  "(fst (dbCall w) \<longrightarrow>
      fire h req now r p k w = (Throws ''findByIdAndUpdate rejected'', snd (dbCall w))) \<and>
   (\<not> fst (dbCall w) \<and> find (\<lambda>x. rid x = rid r) (reminders w) = None \<longrightarrow>
      fire h req now r p k w = (Throws ''TypeError: Cannot read properties of null'', snd (dbCall w))) \<and>
   (\<not> fst (dbCall w) \<and> find (\<lambda>x. rid x = rid r) (reminders w) \<noteq> None \<longrightarrow>
      (\<exists>x w'. fire h req now r p k w = (Returns x, w')))"
proof (intro conjI impI)
  assume "fst (dbCall w)"
  then show "fire h req now r p k w = (Throws ''findByIdAndUpdate rejected'', snd (dbCall w))"
    by (simp add: fire_def findByIdAndUpdate_cases)
next
  assume "\<not> fst (dbCall w) \<and> find (\<lambda>x. rid x = rid r) (reminders w) = None"
  then show "fire h req now r p k w = (Throws ''TypeError: Cannot read properties of null'', snd (dbCall w))"
    by (simp add: fire_def findByIdAndUpdate_cases)
next
  assume a: "\<not> fst (dbCall w) \<and> find (\<lambda>x. rid x = rid r) (reminders w) \<noteq> None"
  then obtain r0 where r0: "find (\<lambda>x. rid x = rid r) (reminders w) = Some r0" by blast
  obtain res w' where f: "fire h req now r p k w = (res, w')" by (metis surj_pair)
  have "\<exists>x. res = Returns x"
    using f a unfolding fire_def findByIdAndUpdate_cases r0
    by (simp add: Let_def split: prod.splits) blast
  with f show "\<exists>x w'. fire h req now r p k w = (Returns x, w')" by blast
qed

text \<open>
  When one candidate ends the scan: it has passed the filters, and its collision query
  rejects, or finds no collision and then the update rejects or finds the document gone.
\<close>

lemma scanOne_throws_iff:
  "(\<exists>e w'. scanOne h req now r w = (Throws e, w')) \<longleftrightarrow>
     (\<exists>p k. filters h req now r = Inr (p, k)) \<and>
     (fst (dbCall w) \<or>
      (\<not> (\<exists>c \<in> set (reminders w). collides (req_user req) now c) \<and>
       (fst (dbCall (snd (dbCall w))) \<or> find (\<lambda>x. rid x = rid r) (reminders w) = None)))"
proof (cases "filters h req now r")
  case (Inl reason)
  then show ?thesis by (simp add: scanOne_skipped)
next
  case (Inr pk)
  obtain p k where pk: "pk = (p, k)" by (cases pk)
  have rw: "reminders (snd (dbCall w)) = reminders w" by (rule dbCall_reminders)
  show ?thesis
  proof (cases "fst (dbCall w)")
    case True
    with Inr pk show ?thesis by (simp add: scanOne_def hasCollision_result)
  next
    case nf: False
    show ?thesis
    proof (cases "\<exists>c \<in> set (reminders w). collides (req_user req) now c")
      case True
      with Inr pk nf show ?thesis by (simp add: scanOne_def hasCollision_result)
    next
      case False
      with Inr pk nf have so: "scanOne h req now r w = fire h req now r p k (snd (dbCall w))"
        by (simp add: scanOne_def hasCollision_result)
      show ?thesis
        using fire_outcome [of "snd (dbCall w)" h req now r p k] Inr pk nf False
        unfolding so rw by auto
    qed
  qed
qed

lemma scanOne_throws:
  assumes "scanOne h req now r w = (Throws e, w')"
  shows "e = ''Reminder.find rejected'' \<or> e = ''findByIdAndUpdate rejected'' \<or>
         (e = ''TypeError: Cannot read properties of null'' \<and> rid r \<notin> set (map rid (reminders w)))"
proof (cases "filters h req now r")
  case (Inl reason)
  with assms show ?thesis by (simp add: scanOne_skipped)
next
  case (Inr pk)
  obtain p k where pk: "pk = (p, k)" by (cases pk)
  have rw: "reminders (snd (dbCall w)) = reminders w" by (rule dbCall_reminders)
  show ?thesis
  proof (cases "fst (dbCall w)")
    case True
    with assms Inr pk show ?thesis by (simp add: scanOne_def hasCollision_result)
  next
    case nf: False
    show ?thesis
    proof (cases "\<exists>c \<in> set (reminders w). collides (req_user req) now c")
      case True
      with assms Inr pk nf show ?thesis by (simp add: scanOne_def hasCollision_result)
    next
      case False
      with Inr pk nf have so: "scanOne h req now r w = fire h req now r p k (snd (dbCall w))"
        by (simp add: scanOne_def hasCollision_result)
      show ?thesis
        using fire_outcome [of "snd (dbCall w)" h req now r p k] assms
        unfolding so rw find_None_iff by auto
    qed
  qed
qed

lemma scanLoop_throws:
  "scanLoop h req now rs out w = (Throws e, w') \<Longrightarrow>
   set (map rid rs) \<subseteq> set (map rid (reminders w)) \<Longrightarrow>
     e = ''Reminder.find rejected'' \<or> e = ''findByIdAndUpdate rejected''"
proof (induction rs arbitrary: out w)
  case Nil
  then show ?case by simp
next
  case (Cons r rs)
  obtain res w1 where so: "scanOne h req now r w = (res, w1)" by (metis surj_pair)
  show ?case
  proof (cases res)
    case (Throws e1)
    with Cons.prems so have "e1 = e" by simp
    with scanOne_throws [OF so [unfolded Throws]] Cons.prems(2) show ?thesis by auto
  next
    case (Returns x)
    with Cons.prems(1) so have l: "scanLoop h req now rs (out @ [x]) w1 = (Throws e, w')" by simp
    from scanOne_steady [OF so] Cons.prems(2)
    have "set (map rid rs) \<subseteq> set (map rid (reminders w1))" by (auto simp: steady_def)
    from Cons.IH [OF l this] show ?thesis .
  qed
qed

lemma scanLoop_abort:
  assumes "scanLoop h req now cs out w = (Returns out1, w1)"
    and "scanOne h req now r w1 = (Throws e, w2)"
  shows "scanLoop h req now (cs @ r # rs) out w = (Throws e, w2)"
  using assms by (simp add: scanLoop_append)

section \<open>Example scans\<close>

lemma tuesday_is_day_2: "getDay utcHost tuesday = 2"
  by (simp add: utcHost_def getDayUTC_def tuesday_def)

lemma gym_mismatch: "dayMismatch utcHost tuesday gym"
  by (simp add: dayMismatch_def gym_def newReminder_def tuesday_is_day_2)

lemma cafe_no_mismatch: "\<not> dayMismatch utcHost tuesday cafe"
  by (simp add: dayMismatch_def cafe_def newReminder_def)

lemma gym_candidate: "candidate origin gym" "rid gym = 5"
  by (simp_all add: candidate_def origin_def gym_def newReminder_def alice_def)

lemma shop_passes: "filters nearHost origin tuesday shop = Inr (northOf 60, Num 60)"
proof -
  have m: "MAX_METERS nearHost = Num 60"
    by (simp add: MAX_METERS_default nearHost_def utcHost_def)
  have "haversineMeters nearHost 0 0 (60 * 180 / (6371000 * pi)) 0 = Num 60"
    using haversine_exact [OF exact_hosts(3)] greatCircle_north [of 60] by simp
  then have d: "distanceGate nearHost origin (northOf 60) = Inr (Num 60)"
    using distanceGate_numeric [of "northOf 60" "60 * 180 / (6371000 * pi)" 0 nearHost origin] m
    by (simp add: northOf_def origin_def)
  have l: "nearbyBestPlace nearHost a b c k = Returns (Some (northOf 60))" for a b c k
    by (simp add: nearHost_def utcHost_def)
  have "\<not> dayMismatch nearHost tuesday shop" "antiSpam tuesday shop = None" "title shop \<noteq> []"
    by (simp_all add: dayMismatch_def antiSpam_def shop_def newReminder_def)
  then show ?thesis by (simp add: filters_def Let_def l d)
qed

lemma candidates: "candidate origin shop" "candidate origin cafe" "rid shop = 8" "rid cafe = 7"
  by (simp_all add: candidate_def origin_def shop_def cafe_def newReminder_def alice_def)

lemma cafe_throttled: "filters nearHost origin tuesday cafe = Inl (anti_spam_window 10)"
proof -
  have g: "getDay nearHost = getDay utcHost" by (simp add: nearHost_def)
  have "\<not> dayMismatch nearHost tuesday cafe"
    using cafe_no_mismatch by (simp add: dayMismatch_host [OF g])
  moreover have "antiSpam tuesday cafe = Some 10"
    by (simp add: antiSpam_def cafe_def newReminder_def tuesday_def)
  ultimately show ?thesis by (simp add: filters_anti_spam)
qed

lemma no_collision: "\<not> collides u now shop" "\<not> collides u now cafe" "\<not> collides u now visited"
  by (simp_all add: collides_def shop_def cafe_def visited_def newReminder_def)

lemma shop_visited:
  "triggerUpdate tuesday shop (northOf 60) shop = visited"
  by (simp add: triggerUpdate_def visited_def shop_def newReminder_def northOf_def tuesday_def)

lemma northOf_fields:
  "place_id (northOf m) = Some ''ChIJ1''" "p_name (northOf m) = Some ''Corner Pharmacy''"
  "p_rating (northOf m) = Some 4"
  by (simp_all add: northOf_def)

lemma fire_patchy:
  "fire nearHost origin tuesday shop (northOf 60) (Num 60)
     \<lparr>reminders = [shop, cafe], notifications = [], faults = [False, True, True], synthLog = []\<rparr> =
   (Returns (Triggered 8
      \<lparr>t_title = ''pharmacy'', body = None,
       bodyFallback = ''Reminder: You're near a place for pharmacy.'',
       t_place_id = Some ''ChIJ1'', t_place_name = Some ''Corner Pharmacy'', t_place_rating = Some 4,
       distanceMeters = Num 60, ttsTextHash = None\<rparr>),
    \<lparr>reminders = [visited, cafe], notifications = [], faults = [], synthLog = []\<rparr>)"
proof -
  have g: "\<not> geminiLoaded nearHost" by (simp add: nearHost_def utcHost_def)
  have v: "rid visited = 8" "user visited = alice" "title visited = ''pharmacy''"
    "aiNotificationLine visited = None"
    by (simp_all add: visited_def shop_def newReminder_def)
  show ?thesis
    by (simp add: fire_def findByIdAndUpdate_cases dbCall_def candidates shop_visited g v
          ensureReminderTTS_def findById_def createNotification_def Let_def northOf_fields)
qed

lemma patchy_scan:
  "scanAndTrigger nearHost origin tuesday patchyWorld =
     (Returns [Triggered 8
        \<lparr>t_title = ''pharmacy'', body = None,
         bodyFallback = ''Reminder: You're near a place for pharmacy.'',
         t_place_id = Some ''ChIJ1'', t_place_name = Some ''Corner Pharmacy'', t_place_rating = Some 4,
         distanceMeters = Num 60, ttsTextHash = None\<rparr>,
       Skipped 7 (anti_spam_window 10)],
      \<lparr>reminders = [visited, cafe], notifications = [], faults = [], synthLog = []\<rparr>)"
  by (simp add: scanAndTrigger_unfold patchyWorld_def dbCall_def candidates scanOne_def shop_passes
        hasCollision_result no_collision fire_patchy cafe_throttled)

lemma broken_scan:
  "scanAndTrigger nearHost origin tuesday brokenWorld =
     (Throws ''findByIdAndUpdate rejected'',
      \<lparr>reminders = [shop, cafe], notifications = [], faults = [], synthLog = []\<rparr>)"
  by (simp add: scanAndTrigger_unfold brokenWorld_def dbCall_def candidates scanOne_def shop_passes
        hasCollision_result no_collision fire_def findByIdAndUpdate_cases)

section \<open>The throttle\<close>

lemma scanOne_anti_spam:
  "scanOne h req now r w = (Returns (Skipped i (anti_spam_window x)), w') \<longleftrightarrow>
     i = rid r \<and> w' = w \<and> \<not> dayMismatch h now r \<and> antiSpam now r = Some x"
proof (cases "filters h req now r")
  case (Inl reason)
  then show ?thesis
    using filters_anti_spam [of h req now r x] by (auto simp: scanOne_skipped)
next
  case (Inr pk)
  obtain p k where pk: "pk = (p, k)" by (cases pk)
  have "filters h req now r \<noteq> Inl (anti_spam_window x)" using Inr by simp
  then have "\<not> (\<not> dayMismatch h now r \<and> antiSpam now r = Some x)"
    by (simp add: filters_anti_spam)
  moreover have "scanOne h req now r w \<noteq> (Returns (Skipped i (anti_spam_window x)), w')"
    using scanOne_passed [OF Inr [unfolded pk], of w "Skipped i (anti_spam_window x)" w'] by auto
  ultimately show ?thesis by blast
qed

lemma scanOne_untriggered:
  assumes "antiSpam now r = None"
  shows "scanOne h req now r w = scanOne h req now (r\<lparr>lastTriggeredAt := None\<rparr>) w"
proof -
  have d: "dayMismatch h now (r\<lparr>lastTriggeredAt := None\<rparr>) = dayMismatch h now r"
    by (simp add: dayMismatch_def)
  have f: "filters h req now (r\<lparr>lastTriggeredAt := None\<rparr>) = filters h req now r"
    using assms by (simp add: filters_def d antiSpam_def)
  have t: "triggerUpdate now (r\<lparr>lastTriggeredAt := None\<rparr>) p = triggerUpdate now r p" for p
    by (rule ext) (simp add: triggerUpdate_def)
  have fr: "fire h req now (r\<lparr>lastTriggeredAt := None\<rparr>) p k v = fire h req now r p k v" for p k v
    by (simp add: fire_def t)
  show ?thesis
    by (simp add: scanOne_def f fr cong: sum.case_cong prod.case_cong outcome.case_cong bool.case_cong)
qed

text \<open>
  C4. The throttle comes second, behind the day filter. A candidate that the day filter
  lets through is skipped as \<open>anti_spam_window\<close>, with the minutes since its last trigger,
  exactly when \<open>lastTriggeredAt\<close> is set and less than 90 minutes before the scan. With
  \<open>lastTriggeredAt\<close> unset, or 90 minutes or more before the scan, the throttle does not block:
  the candidate goes through the following gates to the outcome it would have if it had
  never been triggered. The same holds of its entry in the result list of a scan. (A
  candidate that the day filter rejects is skipped as \<open>day_mismatch\<close>.)
\<close>

theorem throttle_after_day_filter:
  "((\<exists>x. fst (scanOne h req now r w) = Returns (Skipped (rid r) (anti_spam_window x))) \<longleftrightarrow>
      \<not> dayMismatch h now r \<and> (\<exists>t. lastTriggeredAt r = Some t \<and> now - t < 90 * 60000)) \<and>
   (\<not> dayMismatch h now r \<and> lastTriggeredAt r = Some t \<and> now - t < 90 * 60000 \<longrightarrow>
      scanOne h req now r w =
        (Returns (Skipped (rid r) (anti_spam_window (of_int (now - t) / 60000))), w)) \<and>
   (lastTriggeredAt r = None \<or> (\<exists>t. lastTriggeredAt r = Some t \<and> 90 * 60000 \<le> now - t) \<longrightarrow>
      scanOne h req now r w = scanOne h req now (r\<lparr>lastTriggeredAt := None\<rparr>) w) \<and>
   (dayMismatch h now r \<longrightarrow> scanOne h req now r w = (Returns (Skipped (rid r) day_mismatch), w)) \<and>
   (scanAndTrigger h req now w = (Returns out, w') \<and>
    i < length (filter (candidate req) (reminders w)) \<and>
    c = filter (candidate req) (reminders w) ! i \<longrightarrow>
      ((\<exists>x. out ! i = Skipped (rid c) (anti_spam_window x)) \<longleftrightarrow>
         \<not> dayMismatch h now c \<and> (\<exists>t. lastTriggeredAt c = Some t \<and> now - t < 90 * 60000)))"
proof (intro conjI impI)
  show "(\<exists>x. fst (scanOne h req now r w) = Returns (Skipped (rid r) (anti_spam_window x))) \<longleftrightarrow>
      \<not> dayMismatch h now r \<and> (\<exists>t. lastTriggeredAt r = Some t \<and> now - t < 90 * 60000)"
  proof
    assume "\<exists>x. fst (scanOne h req now r w) = Returns (Skipped (rid r) (anti_spam_window x))"
    then obtain x w1 where "scanOne h req now r w = (Returns (Skipped (rid r) (anti_spam_window x)), w1)"
      by (metis prod.collapse)
    then show "\<not> dayMismatch h now r \<and> (\<exists>t. lastTriggeredAt r = Some t \<and> now - t < 90 * 60000)"
      using antiSpam_iff [of now r x] by (auto simp: scanOne_anti_spam)
  next
    assume a: "\<not> dayMismatch h now r \<and> (\<exists>t. lastTriggeredAt r = Some t \<and> now - t < 90 * 60000)"
    then obtain t where "lastTriggeredAt r = Some t" "now - t < 90 * 60000" by blast
    then have "antiSpam now r = Some (of_int (now - t) / 60000)" by (simp add: antiSpam_iff)
    with a have "scanOne h req now r w =
        (Returns (Skipped (rid r) (anti_spam_window (of_int (now - t) / 60000))), w)"
      by (simp add: scanOne_anti_spam)
    then show "\<exists>x. fst (scanOne h req now r w) = Returns (Skipped (rid r) (anti_spam_window x))"
      by (metis fst_conv)
  qed
next
  assume a: "\<not> dayMismatch h now r \<and> lastTriggeredAt r = Some t \<and> now - t < 90 * 60000"
  then have "antiSpam now r = Some (of_int (now - t) / 60000)" by (simp add: antiSpam_iff)
  with a show "scanOne h req now r w =
        (Returns (Skipped (rid r) (anti_spam_window (of_int (now - t) / 60000))), w)"
    by (simp add: scanOne_anti_spam)
next
  assume "lastTriggeredAt r = None \<or> (\<exists>t. lastTriggeredAt r = Some t \<and> 90 * 60000 \<le> now - t)"
  then have "antiSpam now r = None"
  proof (cases "antiSpam now r")
    case (Some x)
    assume n: "lastTriggeredAt r = None \<or> (\<exists>t. lastTriggeredAt r = Some t \<and> 90 * 60000 \<le> now - t)"
    from Some obtain t' where "lastTriggeredAt r = Some t'" "now - t' < 90 * 60000"
      unfolding antiSpam_iff by blast
    with n show ?thesis by auto
  qed simp
  then show "scanOne h req now r w = scanOne h req now (r\<lparr>lastTriggeredAt := None\<rparr>) w"
    by (rule scanOne_untriggered)
next
  assume "dayMismatch h now r"
  then have "filters h req now r = Inl day_mismatch" by (simp add: filters_day_mismatch)
  then show "scanOne h req now r w = (Returns (Skipped (rid r) day_mismatch), w)"
    by (rule scanOne_skipped)
next
  assume a: "scanAndTrigger h req now w = (Returns out, w') \<and>
    i < length (filter (candidate req) (reminders w)) \<and>
    c = filter (candidate req) (reminders w) ! i"
  from scanAndTrigger_nth [of h req now w out w' "\<lambda>v. True" i] a
  obtain wi wi' where so: "scanOne h req now c wi = (Returns (out ! i), wi')" by auto
  show "(\<exists>x. out ! i = Skipped (rid c) (anti_spam_window x)) \<longleftrightarrow>
         \<not> dayMismatch h now c \<and> (\<exists>t. lastTriggeredAt c = Some t \<and> now - t < 90 * 60000)"
  proof
    assume "\<exists>x. out ! i = Skipped (rid c) (anti_spam_window x)"
    then obtain x where "out ! i = Skipped (rid c) (anti_spam_window x)" by blast
    with so show "\<not> dayMismatch h now c \<and> (\<exists>t. lastTriggeredAt c = Some t \<and> now - t < 90 * 60000)"
      using antiSpam_iff [of now c x] by (auto simp: scanOne_anti_spam)
  next
    assume b: "\<not> dayMismatch h now c \<and> (\<exists>t. lastTriggeredAt c = Some t \<and> now - t < 90 * 60000)"
    then obtain t where "lastTriggeredAt c = Some t" "now - t < 90 * 60000" by blast
    then have "antiSpam now c = Some (of_int (now - t) / 60000)" by (simp add: antiSpam_iff)
    with b have "scanOne h req now c wi =
        (Returns (Skipped (rid c) (anti_spam_window (of_int (now - t) / 60000))), wi)"
      by (simp add: scanOne_anti_spam)
    with so have "out ! i = Skipped (rid c) (anti_spam_window (of_int (now - t) / 60000))" by simp
    then show "\<exists>x. out ! i = Skipped (rid c) (anti_spam_window x)" by blast
  qed
qed

lemma library_facts:
  "\<not> dayMismatch utcHost tuesday library" "lastTriggeredAt library = Some 462600000"
  "rid library = 9" "candidate origin library"
  "scanOne utcHost origin tuesday (library\<lparr>lastTriggeredAt := None\<rparr>) w =
     (Returns (Skipped 9 no_places_match), w)"
  by (simp_all add: dayMismatch_def library_def newReminder_def candidate_def origin_def alice_def
        scanOne_def filters_def antiSpam_def utcHost_def)

lemma cafe_candidate: "candidate origin cafe" "rid cafe = 7" "lastTriggeredAt cafe = Some 467400000"
  by (simp_all add: candidate_def origin_def cafe_def newReminder_def alice_def)

lemma throttled_scan:
  "scanAndTrigger utcHost origin tuesday (worldOf [cafe, gym, library]) =
     (Returns [Skipped 7 (anti_spam_window 10), Skipped 5 day_mismatch, Skipped 9 no_places_match],
      worldOf [cafe, gym, library])"
proof -
  have a: "antiSpam tuesday cafe = Some 10" "antiSpam tuesday library = None"
    by (simp_all add: antiSpam_def cafe_def library_def newReminder_def tuesday_def)
  have f1: "filters utcHost origin tuesday cafe = Inl (anti_spam_window 10)"
    using cafe_no_mismatch a by (simp add: filters_anti_spam)
  have f2: "filters utcHost origin tuesday gym = Inl day_mismatch"
    using gym_mismatch by (simp add: filters_day_mismatch)
  have f3: "filters utcHost origin tuesday library = Inl no_places_match"
    using library_facts(1) a(2) by (simp add: filters_def library_def newReminder_def utcHost_def)
  show ?thesis
    by (simp add: scanAndTrigger_unfold dbCall_def worldOf_def cafe_candidate gym_candidate
          library_facts scanOne_skipped f1 f2 f3)
qed

theorem throttle_after_day_filter_witness:
  "\<not> dayMismatch utcHost tuesday cafe \<and> lastTriggeredAt cafe = Some 467400000 \<and>
   tuesday - 467400000 < 90 * 60000 \<and>
   scanOne utcHost origin tuesday cafe (worldOf [cafe]) =
     (Returns (Skipped 7 (anti_spam_window 10)), worldOf [cafe]) \<and>
   lastTriggeredAt library = Some 462600000 \<and> 90 * 60000 \<le> tuesday - 462600000 \<and>
   scanOne utcHost origin tuesday library (worldOf [library]) =
     (Returns (Skipped 9 no_places_match), worldOf [library]) \<and>
   dayMismatch utcHost tuesday gym \<and>
   scanOne utcHost origin tuesday gym (worldOf [gym]) =
     (Returns (Skipped 5 day_mismatch), worldOf [gym]) \<and>
   scanAndTrigger utcHost origin tuesday (worldOf [cafe, gym, library]) =
     (Returns [Skipped 7 (anti_spam_window 10), Skipped 5 day_mismatch, Skipped 9 no_places_match],
      worldOf [cafe, gym, library]) \<and>
   filter (candidate origin) (reminders (worldOf [cafe, gym, library])) = [cafe, gym, library] \<and>
   (\<exists>x. [Skipped 7 (anti_spam_window 10), Skipped 5 day_mismatch, Skipped 9 no_places_match] ! 0 =
          Skipped (rid cafe) (anti_spam_window x)) \<and>
   \<not> (\<exists>x. [Skipped 7 (anti_spam_window 10), Skipped 5 day_mismatch, Skipped 9 no_places_match] ! 2 =
          Skipped (rid library) (anti_spam_window x))"
proof -
  have a: "tuesday - 467400000 < 90 * 60000" "90 * 60000 \<le> tuesday - 462600000" "rid gym = 5"
    by (simp_all add: gym_def newReminder_def tuesday_def)
  have v: "(of_int (tuesday - 467400000) :: rat) / 60000 = 10" by (simp add: tuesday_def)
  note one = throttle_after_day_filter [where h = utcHost and req = origin and now = tuesday]
  from one [where r = cafe and w = "worldOf [cafe]" and t = 467400000] cafe_no_mismatch cafe_candidate a
  have c: "scanOne utcHost origin tuesday cafe (worldOf [cafe]) =
     (Returns (Skipped 7 (anti_spam_window 10)), worldOf [cafe])"
    unfolding v by simp
  from one [where r = library and w = "worldOf [library]"] library_facts a
  have l: "scanOne utcHost origin tuesday library (worldOf [library]) =
     (Returns (Skipped 9 no_places_match), worldOf [library])"
    by simp
  from one [where r = gym and w = "worldOf [gym]"] gym_mismatch a
  have g: "scanOne utcHost origin tuesday gym (worldOf [gym]) =
     (Returns (Skipped 5 day_mismatch), worldOf [gym])"
    by simp
  have cs: "filter (candidate origin) (reminders (worldOf [cafe, gym, library])) = [cafe, gym, library]"
    by (simp add: worldOf_def cafe_candidate gym_candidate library_facts)
  note scan = one [where w = "worldOf [cafe, gym, library]" and w' = "worldOf [cafe, gym, library]"
      and out = "[Skipped 7 (anti_spam_window 10), Skipped 5 day_mismatch, Skipped 9 no_places_match]"]
  from scan [where i = 0 and c = cafe] throttled_scan cs cafe_no_mismatch cafe_candidate a
  have s0: "\<exists>x. [Skipped 7 (anti_spam_window 10), Skipped 5 day_mismatch, Skipped 9 no_places_match] ! 0 =
          Skipped (rid cafe) (anti_spam_window x)"
    by simp
  from scan [where i = 2 and c = library] throttled_scan cs library_facts a
  have s2: "\<not> (\<exists>x. [Skipped 7 (anti_spam_window 10), Skipped 5 day_mismatch, Skipped 9 no_places_match] ! 2 =
          Skipped (rid library) (anti_spam_window x))"
    by simp
  from cafe_no_mismatch cafe_candidate(3) a c library_facts(2) l gym_mismatch g throttled_scan cs s0 s2
  show ?thesis by blast
qed

section \<open>The collision gate\<close>

lemma scanOne_collision:
  assumes "filters h req now r = Inr (p, k)" and "\<not> fst (dbCall w)"
    and "\<exists>c \<in> set (reminders w). collides (req_user req) now c"
  shows "scanOne h req now r w = (Returns (Skipped (rid r) (collision 360000)), snd (dbCall w))"
  using assms by (simp add: scanOne_def hasCollision_result)

lemma scanOne_collision_only:
  assumes "fst (scanOne h req now r w) = Returns (Skipped (rid r) (collision x))"
  shows "x = 360000 \<and> (\<exists>p k. filters h req now r = Inr (p, k)) \<and> \<not> fst (dbCall w) \<and>
         (\<exists>c \<in> set (reminders w). collides (req_user req) now c)"
proof (cases "filters h req now r")
  case (Inl reason)
  with assms have f: "filters h req now r = Inl (collision x)" by (simp add: scanOne_skipped)
  then show ?thesis
    by (auto simp: filters_def Let_def split: if_splits option.splits outcome.splits sum.splits
          dest: distanceGate_reason)
next
  case (Inr pk)
  obtain p k where pk: "pk = (p, k)" by (cases pk)
  show ?thesis
  proof (cases "fst (dbCall w)")
    case True
    with assms Inr pk show ?thesis by (simp add: scanOne_def hasCollision_result)
  next
    case nf: False
    show ?thesis
    proof (cases "\<exists>c \<in> set (reminders w). collides (req_user req) now c")
      case True
      with assms Inr pk nf show ?thesis by (auto simp: scanOne_def hasCollision_result)
    next
      case False
      with Inr pk nf have "scanOne h req now r w = fire h req now r p k (snd (dbCall w))"
        by (simp add: scanOne_def hasCollision_result)
      with assms obtain w' where "fire h req now r p k (snd (dbCall w)) =
          (Returns (Skipped (rid r) (collision x)), w')"
        by (metis prod.collapse)
      from fire_result [OF this] show ?thesis by simp
    qed
  qed
qed

text \<open>
  No step of a scan changes what the collision query reads: the trigger and the speech
  stage write other fields of documents whose ids are unique.
\<close>

lemma collides_slot: "slot c = slot c' \<Longrightarrow> collides u now c = collides u now c'"
  by (auto simp: slot_def collides_def)

lemma collision_slots:
  assumes "map slot xs = map slot ys"
  shows "(\<exists>c \<in> set xs. collides u now c) = (\<exists>c \<in> set ys. collides u now c)"
proof -
  have one: "\<exists>c' \<in> set bs. collides u now c'"
    if "map slot as = map slot bs" "c \<in> set as" "collides u now c" for as bs c
  proof -
    from that(2) have "slot c \<in> set (map slot as)" by simp
    with that(1) obtain c' where "c' \<in> set bs" "slot c' = slot c" by auto
    with that(3) collides_slot [of c' c u now] show ?thesis by blast
  qed
  from one [OF assms] one [OF assms [symmetric]] show ?thesis by blast
qed

lemma rid_slots: "map slot xs = map slot ys \<Longrightarrow> map rid xs = map rid ys"
proof -
  assume a: "map slot xs = map slot ys"
  have e: "map rid zs = map fst (map slot zs)" for zs by (induction zs) (simp_all add: slot_def)
  show ?thesis unfolding e a ..
qed

lemma slot_updates [simp]:
  "slot (markPending v hash r) = slot r" "slot (markReady b now r) = slot r"
  "slot (markFailed r) = slot r" "slot (triggerUpdate now r0 p r) = slot r"
  "slot (r\<lparr>aiNotificationLine := l\<rparr>) = slot r"
  by (simp_all add: slot_def markPending_def markReady_def markFailed_def triggerUpdate_def)

lemma save_slots:
  assumes "save r v = (res, v')"
    and "\<forall>x \<in> set (reminders v). rid x = rid r \<longrightarrow> slot x = slot r"
  shows "map slot (reminders v') = map slot (reminders v)"
proof -
  have "map slot (map (\<lambda>x. if rid x = rid r then r else x) xs) = map slot xs"
    if "\<forall>x \<in> set xs. rid x = rid r \<longrightarrow> slot x = slot r" for xs
    using that by (induction xs) simp_all
  from this [OF assms(2)] save_reminders [OF assms(1)] show ?thesis by auto
qed

lemma agree_transfer:
  assumes "map slot (reminders v') = map slot (reminders v)" and "slot r' = slot r"
    and "\<forall>x \<in> set (reminders v). rid x = rid r \<longrightarrow> slot x = slot r"
  shows "\<forall>x \<in> set (reminders v'). rid x = rid r' \<longrightarrow> slot x = slot r'"
proof (intro ballI impI)
  fix x assume x: "x \<in> set (reminders v')" "rid x = rid r'"
  have "slot ` set (reminders v') = slot ` set (reminders v)"
    using arg_cong [OF assms(1), of set] by simp
  with x(1) have "slot x \<in> slot ` set (reminders v)" by blast
  then obtain y where y: "y \<in> set (reminders v)" "slot y = slot x" by auto
  have "rid y = rid x" using y(2) by (simp add: slot_def)
  moreover have "rid r' = rid r" using assms(2) by (simp add: slot_def)
  ultimately have "slot y = slot r" using assms(3) y(1) x(2) by simp
  with y(2) assms(2) show "slot x = slot r'" by simp
qed

lemma find_agree:
  assumes "distinct (map rid xs)" and "find (\<lambda>x. rid x = i) xs = Some r0"
  shows "\<forall>x \<in> set xs. rid x = rid r0 \<longrightarrow> slot x = slot r0"
proof (intro ballI impI)
  fix x assume x: "x \<in> set xs" "rid x = rid r0"
  have m: "find P zs = Some z \<Longrightarrow> z \<in> set zs" for P and zs :: "reminder list" and z
    by (induction zs) (auto split: if_splits)
  have r0: "r0 \<in> set xs" using m [OF assms(2)] .
  have "inj_on rid (set xs)" using assms(1) by (simp add: distinct_map)
  from inj_onD [OF this x(2) x(1) r0] show "slot x = slot r0" by simp
qed

lemma synthesizeAndStore_slots:
  assumes "synthesizeAndStore h now msg vo p v = (res, v')"
    and "\<forall>x \<in> set (reminders v). rid x = rid p \<longrightarrow> slot x = slot p"
  shows "map slot (reminders v') = map slot (reminders v)"
proof -
  define v0 where "v0 = v\<lparr>synthLog := synthLog v @ [(msg, vo)]\<rparr>"
  have r0: "reminders v0 = reminders v" by (simp add: v0_def)
  have ag: "\<forall>x \<in> set (reminders v0). rid x = rid q \<longrightarrow> slot x = slot q" if "slot q = slot p" for q
    using agree_transfer [OF _ that assms(2), of v0] r0 by simp
  show ?thesis
  proof (cases "synthesize h msg vo")
    case (Throws e1)
    obtain sr v2 where sv: "save (markFailed p) v0 = (sr, v2)" by (metis surj_pair)
    from assms(1) Throws sv have "v' = v2"
      by (auto simp: synthesizeAndStore_def v0_def Let_def split: outcome.splits)
    with save_slots [OF sv ag] r0 show ?thesis by simp
  next
    case (Returns b)
    obtain sr v2 where sv: "save (markReady b now p) v0 = (sr, v2)" by (metis surj_pair)
    have s2: "map slot (reminders v2) = map slot (reminders v)"
      using save_slots [OF sv ag] r0 by simp
    show ?thesis
    proof (cases sr)
      case (Returns u)
      with assms(1) \<open>synthesize h msg vo = Returns b\<close> sv have "v' = v2"
        by (auto simp: synthesizeAndStore_def v0_def Let_def)
      with s2 show ?thesis by simp
    next
      case (Throws e1)
      obtain sr3 v3 where sv3: "save (markFailed (markReady b now p)) v2 = (sr3, v3)"
        by (metis surj_pair)
      have "\<forall>x \<in> set (reminders v2). rid x = rid (markFailed (markReady b now p)) \<longrightarrow>
          slot x = slot (markFailed (markReady b now p))"
        by (rule agree_transfer [OF s2 _ assms(2)]) simp
      from save_slots [OF sv3 this] s2 have s3: "map slot (reminders v3) = map slot (reminders v)"
        by simp
      from assms(1) \<open>synthesize h msg vo = Returns b\<close> sv Throws sv3 have "v' = v3"
        by (auto simp: synthesizeAndStore_def v0_def Let_def split: outcome.splits)
      with s3 show ?thesis by simp
    qed
  qed
qed

lemma ensureReminderTTS_slots:
  assumes "ensureReminderTTS h now i ou ov v = (res, v')" and "distinct (map rid (reminders v))"
  shows "map slot (reminders v') = map slot (reminders v)"
proof -
  obtain res1 v1 where fb: "findById i v = (res1, v1)" by (metis surj_pair)
  from findById_result [OF fb] have v1: "reminders v1 = reminders v"
    and r1: "res1 = Returns (find (\<lambda>r. rid r = i) (reminders v)) \<or> (\<exists>e. res1 = Throws e)" by auto
  show ?thesis
  proof (cases "\<exists>r0. res1 = Returns (Some r0)")
    case False
    with assms(1) fb have "v' = v1"
      by (auto simp: ensureReminderTTS_def split: outcome.splits option.splits)
    with v1 show ?thesis by simp
  next
    case True
    then obtain r0 where res1: "res1 = Returns (Some r0)" by blast
    with r1 have f0: "find (\<lambda>r. rid r = i) (reminders v) = Some r0" by simp
    have ag0: "\<forall>x \<in> set (reminders v). rid x = rid r0 \<longrightarrow> slot x = slot r0"
      by (rule find_agree [OF assms(2) f0])
    define msg where "msg = ttsText r0 ou"
    define vo where "vo = ttsVoice h r0 ov"
    define p where "p = markPending vo (computeTextHash msg vo) r0"
    have sp: "slot p = slot r0" by (simp add: p_def)
    show ?thesis
    proof (cases "upToDate (computeTextHash msg vo) r0")
      case True
      with assms(1) fb res1 have "v' = v1"
        by (simp add: ensureReminderTTS_def Let_def msg_def vo_def)
      with v1 show ?thesis by simp
    next
      case False
      obtain sr v2 where sv: "save p v1 = (sr, v2)" by (metis surj_pair)
      have ag1: "\<forall>x \<in> set (reminders v1). rid x = rid p \<longrightarrow> slot x = slot p"
        using agree_transfer [OF _ sp ag0, of v1] v1 by simp
      have s2: "map slot (reminders v2) = map slot (reminders v)"
        using save_slots [OF sv ag1] v1 by simp
      show ?thesis
      proof (cases sr)
        case (Throws e)
        with assms(1) fb res1 False sv have "v' = v2"
          by (simp add: ensureReminderTTS_def Let_def msg_def vo_def p_def)
        with s2 show ?thesis by simp
      next
        case (Returns u)
        with assms(1) fb res1 False sv
        have sy: "synthesizeAndStore h now msg vo p v2 = (res, v')"
          by (simp add: ensureReminderTTS_def Let_def msg_def vo_def p_def)
        have "\<forall>x \<in> set (reminders v2). rid x = rid p \<longrightarrow> slot x = slot p"
          using agree_transfer [OF s2 sp ag0] .
        from synthesizeAndStore_slots [OF sy this] s2 show ?thesis by simp
      qed
    qed
  qed
qed

lemma distinct_slots:
  "map slot (reminders v') = map slot (reminders v) \<Longrightarrow> distinct (map rid (reminders v)) \<Longrightarrow>
     distinct (map rid (reminders v'))"
  using rid_slots [of "reminders v'" "reminders v"] by simp

lemma pollTTS_slots:
  "pollTTS h now i u n v = (res, v') \<Longrightarrow> distinct (map rid (reminders v)) \<Longrightarrow>
     map slot (reminders v') = map slot (reminders v)"
proof (induction n arbitrary: v)
  case 0
  then show ?case by simp
next
  case (Suc n)
  obtain r1 v1 where e: "ensureReminderTTS h now i (Some u) None v = (r1, v1)" by (metis surj_pair)
  have s1: "map slot (reminders v1) = map slot (reminders v)"
    using ensureReminderTTS_slots [OF e Suc.prems(2)] .
  have d1: "distinct (map rid (reminders v1))" using distinct_slots [OF s1 Suc.prems(2)] .
  from Suc.prems(1) e have "v' = v1 \<or> pollTTS h now i u n v1 = (res, v')"
    by (auto split: outcome.splits option.splits)
  then show ?case using s1 Suc.IH [OF _ d1] by auto
qed


lemma createNotification_reminders: "reminders (snd (createNotification n v)) = reminders v"
  by (simp add: createNotification_def dbCall_def split: list.splits)

lemma fire_slots:
  assumes "fire h req now r p k v = (res, v')" and "distinct (map rid (reminders v))"
  shows "map slot (reminders v') = map slot (reminders v)"
proof (cases "\<not> fst (dbCall v) \<and> find (\<lambda>x. rid x = rid r) (reminders v) \<noteq> None")
  case False
  with fire_outcome [of v h req now r p k] assms(1) have "v' = snd (dbCall v)" by auto
  then show ?thesis by (simp add: dbCall_reminders)
next
  case True
  then obtain r0 where r0: "find (\<lambda>x. rid x = rid r) (reminders v) = Some r0" by blast
  define u0 where "u0 = triggerUpdate now r p r0"
  define v1 where "v1 = (snd (dbCall v))\<lparr>reminders :=
      map (\<lambda>x. if rid x = rid r then triggerUpdate now r p x else x) (reminders v)\<rparr>"
  have fu: "findByIdAndUpdate (rid r) (triggerUpdate now r p) v = (Returns (Some u0), v1)"
    using True by (simp add: findByIdAndUpdate_cases r0 u0_def v1_def)
  have "map slot (map (\<lambda>x. if rid x = rid r then triggerUpdate now r p x else x) xs) = map slot xs" for xs
    by (induction xs) simp_all
  then have s1: "map slot (reminders v1) = map slot (reminders v)" by (simp add: v1_def)
  have ag0: "\<forall>x \<in> set (reminders v). rid x = rid r0 \<longrightarrow> slot x = slot r0"
    by (rule find_agree [OF assms(2) r0])
  define lw where "lw = (if geminiLoaded h
                  then (case generateLine h u0 (user u0) of
                          Returns line \<Rightarrow>
                            if line \<noteq> []
                            then (let upd1 = u0\<lparr>aiNotificationLine := Some line\<rparr>
                                  in (upd1, snd (save upd1 v1)))
                            else (u0, v1)
                        | Throws e \<Rightarrow> (u0, v1))
                  else (u0, v1))"
  obtain updated v2 where lw': "lw = (updated, v2)" by (metis surj_pair)
  have sv: "map slot (reminders (snd (save (u0\<lparr>aiNotificationLine := Some l\<rparr>) v1))) =
      map slot (reminders v1)" for l
  proof -
    have "\<forall>x \<in> set (reminders v1). rid x = rid (u0\<lparr>aiNotificationLine := Some l\<rparr>) \<longrightarrow>
        slot x = slot (u0\<lparr>aiNotificationLine := Some l\<rparr>)"
      by (rule agree_transfer [OF s1 _ ag0]) (simp add: u0_def)
    then show ?thesis using save_slots [of "u0\<lparr>aiNotificationLine := Some l\<rparr>" v1]
      by (metis prod.collapse)
  qed
  have s2: "map slot (reminders v2) = map slot (reminders v1)"
    using lw' unfolding lw_def by (auto simp: Let_def sv split: if_splits outcome.splits)
  have d2: "distinct (map rid (reminders v2))"
    using distinct_slots [OF s2] distinct_slots [OF s1 assms(2)] by simp
  define hw where "hw = (case ensureReminderTTS h now (rid updated) (Some (user updated)) None v2 of
                    (Throws e, w') \<Rightarrow> (None, w')
                  | (Returns ensured, w') \<Rightarrow>
                      (case textHash (tts ensured) of
                         Some x \<Rightarrow> (Some x, w')
                       | None \<Rightarrow> pollTTS h now (rid updated) (user updated) (pollBudget h) w'))"
  obtain hash v3 where hw': "hw = (hash, v3)" by (metis surj_pair)
  obtain er ve where en: "ensureReminderTTS h now (rid updated) (Some (user updated)) None v2 = (er, ve)"
    by (metis surj_pair)
  have se: "map slot (reminders ve) = map slot (reminders v2)"
    by (rule ensureReminderTTS_slots [OF en d2])
  have de: "distinct (map rid (reminders ve))" by (rule distinct_slots [OF se d2])
  have s3: "map slot (reminders v3) = map slot (reminders v2)"
    using hw' se pollTTS_slots [OF _ de] unfolding hw_def en
    by (auto split: outcome.splits option.splits)
  have "\<exists>n. v' = snd (createNotification n v3)"
    using assms(1) unfolding fire_def fu
    by (simp add: Let_def lw_def [symmetric] lw' hw_def [symmetric] hw') blast
  then obtain n where "v' = snd (createNotification n v3)" by blast
  with s1 s2 s3 show ?thesis by (simp add: createNotification_reminders)
qed

lemma scanOne_slots:
  assumes "scanOne h req now r v = (res, v')" and "distinct (map rid (reminders v))"
  shows "map slot (reminders v') = map slot (reminders v)"
proof (cases "filters h req now r")
  case (Inl reason)
  with assms(1) show ?thesis by (simp add: scanOne_skipped)
next
  case (Inr pk)
  obtain p k where pk: "pk = (p, k)" by (cases pk)
  have rw: "reminders (snd (dbCall v)) = reminders v" by (rule dbCall_reminders)
  show ?thesis
  proof (cases "fst (dbCall v)")
    case True
    with assms(1) Inr pk have "v' = snd (dbCall v)"
      by (simp add: scanOne_def hasCollision_result)
    with rw show ?thesis by simp
  next
    case nf: False
    show ?thesis
    proof (cases "\<exists>c \<in> set (reminders v). collides (req_user req) now c")
      case True
      with assms(1) Inr pk nf have "v' = snd (dbCall v)"
        by (simp add: scanOne_def hasCollision_result)
      with rw show ?thesis by simp
    next
      case False
      with assms(1) Inr pk nf have "fire h req now r p k (snd (dbCall v)) = (res, v')"
        by (simp add: scanOne_def hasCollision_result)
      from fire_slots [OF this] assms(2) rw show ?thesis by simp
    qed
  qed
qed

lemma dueIn_collides:
  "collides (req_user origin) tuesday (dueIn d) \<longleftrightarrow> - 300000 \<le> d \<and> d \<le> 300000"
  by (auto simp: collides_def dueIn_def newReminder_def alice_def tuesday_def origin_def)

text \<open>
  C6. The collision gate is the last one: a candidate reaches it after the day, throttle,
  keyword, place and distance filters have let it through. Such a candidate, once its
  collision query is answered, is skipped as \<open>collision\<close>, with a retry delay of 360000 ms,
  exactly when the user has a Task or Meeting that is not completed and starts within five
  minutes before or after the scan, bounds included: a start 4 min 59 s ahead collides, one
  5 min 1 s ahead does not. No other candidate is skipped as \<open>collision\<close>. The same holds of
  the candidate's entry in the result list of a scan over documents with unique ids.
\<close>

theorem collision_window:
  "((\<exists>x. fst (scanOne h req now r w) = Returns (Skipped (rid r) (collision x))) \<longleftrightarrow>
      (\<exists>p k. filters h req now r = Inr (p, k)) \<and> \<not> fst (dbCall w) \<and>
      (\<exists>c \<in> set (reminders w). collides (req_user req) now c)) \<and>
   (fst (scanOne h req now r w) = Returns (Skipped (rid r) (collision x)) \<longrightarrow> x = 360000) \<and>
   (uid (user c) = usr \<and> (type c = Task \<or> type c = Meeting) \<and> \<not> isCompleted c \<longrightarrow>
      (startDate c = Some (now + 299000) \<longrightarrow> collides usr now c) \<and>
      (startDate c = Some (now + 300000) \<longrightarrow> collides usr now c) \<and>
      (startDate c = Some (now + 301000) \<longrightarrow> \<not> collides usr now c)) \<and>
   (scanAndTrigger h req now w = (Returns out, w') \<and> distinct (map rid (reminders w)) \<and>
    i < length (filter (candidate req) (reminders w)) \<and>
    cand = filter (candidate req) (reminders w) ! i \<longrightarrow>
      ((\<exists>x. out ! i = Skipped (rid cand) (collision x)) \<longleftrightarrow>
         (\<exists>p k. filters h req now cand = Inr (p, k)) \<and>
         (\<exists>c \<in> set (reminders w). collides (req_user req) now c)) \<and>
      (out ! i = Skipped (rid cand) (collision x) \<longrightarrow> x = 360000))"
proof (intro conjI impI)
  show "(\<exists>x. fst (scanOne h req now r w) = Returns (Skipped (rid r) (collision x))) \<longleftrightarrow>
      (\<exists>p k. filters h req now r = Inr (p, k)) \<and> \<not> fst (dbCall w) \<and>
      (\<exists>c \<in> set (reminders w). collides (req_user req) now c)"
  proof
    assume "\<exists>x. fst (scanOne h req now r w) = Returns (Skipped (rid r) (collision x))"
    then show "(\<exists>p k. filters h req now r = Inr (p, k)) \<and> \<not> fst (dbCall w) \<and>
      (\<exists>c \<in> set (reminders w). collides (req_user req) now c)"
      using scanOne_collision_only by blast
  next
    assume "(\<exists>p k. filters h req now r = Inr (p, k)) \<and> \<not> fst (dbCall w) \<and>
      (\<exists>c \<in> set (reminders w). collides (req_user req) now c)"
    then show "\<exists>x. fst (scanOne h req now r w) = Returns (Skipped (rid r) (collision x))"
      using scanOne_collision by (metis fst_conv)
  qed
next
  assume "fst (scanOne h req now r w) = Returns (Skipped (rid r) (collision x))"
  then show "x = 360000" using scanOne_collision_only by blast
next
  assume "uid (user c) = usr \<and> (type c = Task \<or> type c = Meeting) \<and> \<not> isCompleted c"
    and "startDate c = Some (now + 299000)"
  then show "collides usr now c" by (simp add: collides_def)
next
  assume "uid (user c) = usr \<and> (type c = Task \<or> type c = Meeting) \<and> \<not> isCompleted c"
    and "startDate c = Some (now + 300000)"
  then show "collides usr now c" by (simp add: collides_def)
next
  assume "startDate c = Some (now + 301000)"
  then show "\<not> collides usr now c" by (simp add: collides_def)
next
  assume a: "scanAndTrigger h req now w = (Returns out, w') \<and> distinct (map rid (reminders w)) \<and>
    i < length (filter (candidate req) (reminders w)) \<and>
    cand = filter (candidate req) (reminders w) ! i"
  define P where "P v = (map slot (reminders v) = map slot (reminders w))" for v :: world
  have p0: "P (snd (dbCall w))" by (simp add: P_def dbCall_reminders)
  have step: "P v'" if "P v" "scanOne h req now r v = (res, v')" for r v res v'
  proof -
    from that(1) a have "distinct (map rid (reminders v))"
      unfolding P_def using distinct_slots [of v w] by simp
    from scanOne_slots [OF that(2) this] that(1) show ?thesis by (simp add: P_def)
  qed
  have "length out = length (filter (candidate req) (reminders w)) \<and>
      (\<exists>wi wi'. P wi \<and>
         scanOne h req now (filter (candidate req) (reminders w) ! i) wi = (Returns (out ! i), wi'))"
  proof (rule scanAndTrigger_nth [where P = P])
    show "scanAndTrigger h req now w = (Returns out, w')" using a by simp
    show "P (snd (dbCall w))" by (rule p0)
    show "\<And>r v res v'. P v \<Longrightarrow> scanOne h req now r v = (res, v') \<Longrightarrow> P v'" by (rule step)
    show "i < length (filter (candidate req) (reminders w))" using a by simp
  qed
  with a obtain wi wi' where wi: "map slot (reminders wi) = map slot (reminders w)"
    and so: "scanOne h req now cand wi = (Returns (out ! i), wi')"
    unfolding P_def by blast
  have col: "(\<exists>c \<in> set (reminders wi). collides (req_user req) now c) =
             (\<exists>c \<in> set (reminders w). collides (req_user req) now c)"
    by (rule collision_slots [OF wi])
  have only: "x = 360000 \<and> (\<exists>p k. filters h req now cand = Inr (p, k)) \<and>
      (\<exists>c \<in> set (reminders w). collides (req_user req) now c)"
    if "out ! i = Skipped (rid cand) (collision x)" for x
    using scanOne_collision_only [of h req now cand wi x] so that col by simp
  {
    show "(\<exists>x. out ! i = Skipped (rid cand) (collision x)) \<longleftrightarrow>
         (\<exists>p k. filters h req now cand = Inr (p, k)) \<and>
         (\<exists>c \<in> set (reminders w). collides (req_user req) now c)"
    proof
      assume "\<exists>x. out ! i = Skipped (rid cand) (collision x)"
      with only show "(\<exists>p k. filters h req now cand = Inr (p, k)) \<and>
         (\<exists>c \<in> set (reminders w). collides (req_user req) now c)" by blast
    next
      assume b: "(\<exists>p k. filters h req now cand = Inr (p, k)) \<and>
         (\<exists>c \<in> set (reminders w). collides (req_user req) now c)"
      then obtain p k where f: "filters h req now cand = Inr (p, k)" by blast
      have nf: "\<not> fst (dbCall wi)"
      proof
        assume "fst (dbCall wi)"
        with b have "\<exists>e v. scanOne h req now cand wi = (Throws e, v)"
          unfolding scanOne_throws_iff by blast
        with so show False by simp
      qed
      from b col have "\<exists>c \<in> set (reminders wi). collides (req_user req) now c" by simp
      from scanOne_collision [OF f nf this] so
      have "out ! i = Skipped (rid cand) (collision 360000)" by simp
      then show "\<exists>x. out ! i = Skipped (rid cand) (collision x)" by blast
    qed
  next
    assume "out ! i = Skipped (rid cand) (collision x)"
    with only show "x = 360000" by blast
  }
qed

lemma collision_scan:
  "scanAndTrigger nearHost origin tuesday (worldOf [shop, dueIn 299000]) =
     (Returns [Skipped 8 (collision 360000)], worldOf [shop, dueIn 299000])"
proof -
  have c: "\<not> candidate origin (dueIn 299000)" by (simp add: candidate_def dueIn_def newReminder_def)
  have "collides (req_user origin) tuesday (dueIn 299000)" by (simp add: dueIn_collides)
  then show ?thesis
    by (simp add: scanAndTrigger_unfold dbCall_def worldOf_def candidates c scanOne_def shop_passes
          hasCollision_result)
qed

theorem collision_window_witness:
  "filters nearHost origin tuesday shop = Inr (northOf 60, Num 60) \<and>
   \<not> fst (dbCall (worldOf [shop, dueIn 299000])) \<and>
   collides (req_user origin) tuesday (dueIn 299000) \<and>
   fst (scanOne nearHost origin tuesday shop (worldOf [shop, dueIn 299000])) =
     Returns (Skipped 8 (collision 360000)) \<and>
   \<not> collides (req_user origin) tuesday shop \<and>
   \<not> collides (req_user origin) tuesday (dueIn 301000) \<and>
   fst (scanOne nearHost origin tuesday shop (worldOf [shop, dueIn 301000])) \<noteq>
     Returns (Skipped 8 (collision 360000)) \<and>
   scanAndTrigger nearHost origin tuesday (worldOf [shop, dueIn 299000]) =
     (Returns [Skipped 8 (collision 360000)], worldOf [shop, dueIn 299000]) \<and>
   distinct (map rid (reminders (worldOf [shop, dueIn 299000]))) \<and>
   filter (candidate origin) (reminders (worldOf [shop, dueIn 299000])) = [shop] \<and>
   (\<exists>x. [Skipped 8 (collision 360000)] ! 0 = Skipped (rid shop) (collision x))"
proof -
  have u: "req_user origin = 1" "rid shop = 8" by (simp_all add: origin_def shop_def newReminder_def)
  have nf: "\<not> fst (dbCall (worldOf rs))" for rs by (simp add: dbCall_def worldOf_def)
  have c1: "collides (req_user origin) tuesday (dueIn 299000)"
    and c2: "\<not> collides (req_user origin) tuesday (dueIn 301000)"
    by (simp_all add: dueIn_collides)
  have c3: "\<not> collides (req_user origin) tuesday shop"
    by (simp add: collides_def shop_def newReminder_def)
  note inst = collision_window [where h = nearHost and req = origin and now = tuesday and r = shop,
      THEN conjunct1]
  have a: "\<exists>x. fst (scanOne nearHost origin tuesday shop (worldOf [shop, dueIn 299000])) =
      Returns (Skipped (rid shop) (collision x))"
    unfolding inst using shop_passes nf c1 by (auto simp: worldOf_def)
  then obtain x where x: "fst (scanOne nearHost origin tuesday shop (worldOf [shop, dueIn 299000])) =
      Returns (Skipped (rid shop) (collision x))" by blast
  from collision_window [where h = nearHost and req = origin and now = tuesday and r = shop and
      w = "worldOf [shop, dueIn 299000]" and x = x, THEN conjunct2, THEN conjunct1, rule_format, OF x]
  have "x = 360000" .
  with x have a': "fst (scanOne nearHost origin tuesday shop (worldOf [shop, dueIn 299000])) =
      Returns (Skipped 8 (collision 360000))" by (simp add: u)
  have "\<not> (\<exists>x. fst (scanOne nearHost origin tuesday shop (worldOf [shop, dueIn 301000])) =
      Returns (Skipped (rid shop) (collision x)))"
    unfolding inst using c2 c3 by (simp add: worldOf_def)
  then have b: "fst (scanOne nearHost origin tuesday shop (worldOf [shop, dueIn 301000])) \<noteq>
     Returns (Skipped 8 (collision 360000))" by (simp add: u)
  have d: "distinct (map rid (reminders (worldOf [shop, dueIn 299000])))"
    by (simp add: worldOf_def shop_def dueIn_def newReminder_def)
  have "\<not> candidate origin (dueIn 299000)" by (simp add: candidate_def dueIn_def newReminder_def)
  then have cs: "filter (candidate origin) (reminders (worldOf [shop, dueIn 299000])) = [shop]"
    by (simp add: worldOf_def candidates)
  have e: "\<exists>x. [Skipped 8 (collision 360000)] ! 0 = Skipped (rid shop) (collision x)"
    by (simp add: u)
  show ?thesis
    by (intro conjI shop_passes nf c1 a' c3 c2 b collision_scan d cs e)
qed

section \<open>One outcome for every candidate\<close>

text \<open>
  C9, as the code has it. A scan that answers with a result list holds exactly one entry
  for every candidate, in the order of the candidates. A filter that fails is the skipped
  entry of its candidate, an exception of the places lookup the entry \<open>places_error\<close>, and the
  AI line, the save of that line, the speech stage and the notification record never end a
  scan. The collision query and the update of the reminder are awaited outside any
  \<open>try\<close> of the loop: a candidate ends the scan exactly when it has passed the filters and
  its collision query rejects, or finds no collision and the update then rejects or finds
  the document gone. The scan then answers with status 500, carrying the error of one of
  these database calls, and the candidates that follow are not processed. While no database
  call rejects, the scan always answers with the full list.
\<close>

theorem scan_outcomes:
  "(scanAndTrigger h req now w = (Returns out, w') \<longrightarrow>
      map resultId out = map rid (filter (candidate req) (reminders w))) \<and>
   (faults w = [] \<longrightarrow> (\<exists>out w'. scanAndTrigger h req now w = (Returns out, w'))) \<and>
   (\<not> dayMismatch h now r \<and> antiSpam now r = None \<and> title r \<noteq> [] \<and>
    nearbyBestPlace h (req_lat req) (req_lng req)
      (case req_radius req of None \<Rightarrow> 500 | Some x \<Rightarrow> if x = 0 then 500 else x) (title r) = Throws e \<longrightarrow>
      scanOne h req now r w = (Returns (Skipped (rid r) (places_error e)), w)) \<and>
   ((\<exists>err v. scanOne h req now r w = (Throws err, v)) \<longleftrightarrow>
      (\<exists>p k. filters h req now r = Inr (p, k)) \<and>
      (fst (dbCall w) \<or>
       (\<not> (\<exists>c \<in> set (reminders w). collides (req_user req) now c) \<and>
        (fst (dbCall (snd (dbCall w))) \<or> find (\<lambda>x. rid x = rid r) (reminders w) = None)))) \<and>
   (scanLoop h req now cs acc w = (Returns acc', v) \<and> scanOne h req now r v = (Throws err, v') \<longrightarrow>
      scanLoop h req now (cs @ r # rs) acc w = (Throws err, v')) \<and>
   (scanAndTrigger h req now w = (Throws err, v) \<longrightarrow>
      err = ''Reminder.find rejected'' \<or> err = ''findByIdAndUpdate rejected'')"
proof (intro conjI impI)
  assume "scanAndTrigger h req now w = (Returns out, w')"
  then have "scanLoop h req now (filter (candidate req) (reminders w)) [] (snd (dbCall w)) =
      (Returns out, w')"
    by (simp add: scanAndTrigger_unfold split: if_splits)
  from scanLoop_ids [OF this]
  show "map resultId out = map rid (filter (candidate req) (reminders w))" by simp
next
  assume f: "faults w = []"
  then have d: "dbCall w = (False, w)" by (simp add: dbCall_def)
  have "set (map rid (filter (candidate req) (reminders w))) \<subseteq> set (map rid (reminders w))"
    by auto
  from scanLoop_completes [OF f this, of h req now "[]"]
  show "\<exists>out w'. scanAndTrigger h req now w = (Returns out, w')"
    by (simp add: scanAndTrigger_unfold d)
next
  assume "\<not> dayMismatch h now r \<and> antiSpam now r = None \<and> title r \<noteq> [] \<and>
    nearbyBestPlace h (req_lat req) (req_lng req)
      (case req_radius req of None \<Rightarrow> 500 | Some x \<Rightarrow> if x = 0 then 500 else x) (title r) = Throws e"
  then have "filters h req now r = Inl (places_error e)" by (simp add: filters_places_error)
  then show "scanOne h req now r w = (Returns (Skipped (rid r) (places_error e)), w)"
    by (rule scanOne_skipped)
next
  show "(\<exists>err v. scanOne h req now r w = (Throws err, v)) \<longleftrightarrow>
      (\<exists>p k. filters h req now r = Inr (p, k)) \<and>
      (fst (dbCall w) \<or>
       (\<not> (\<exists>c \<in> set (reminders w). collides (req_user req) now c) \<and>
        (fst (dbCall (snd (dbCall w))) \<or> find (\<lambda>x. rid x = rid r) (reminders w) = None)))"
    by (rule scanOne_throws_iff)
next
  assume "scanLoop h req now cs acc w = (Returns acc', v) \<and> scanOne h req now r v = (Throws err, v')"
  then show "scanLoop h req now (cs @ r # rs) acc w = (Throws err, v')"
    using scanLoop_abort by blast
next
  assume a: "scanAndTrigger h req now w = (Throws err, v)"
  show "err = ''Reminder.find rejected'' \<or> err = ''findByIdAndUpdate rejected''"
  proof (cases "fst (dbCall w)")
    case True
    with a show ?thesis by (simp add: scanAndTrigger_unfold)
  next
    case False
    with a have l: "scanLoop h req now (filter (candidate req) (reminders w)) [] (snd (dbCall w)) =
        (Throws err, v)"
      by (simp add: scanAndTrigger_unfold)
    have "set (map rid (filter (candidate req) (reminders w))) \<subseteq>
        set (map rid (reminders (snd (dbCall w))))"
      by (auto simp: dbCall_reminders)
    from scanLoop_throws [OF l this] show ?thesis .
  qed
qed

lemma lost_scan:
  "scanAndTrigger lostHost origin tuesday (worldOf [shop, cafe, gym]) =
     (Returns [Skipped 8 (places_error ''GOOGLE_MAPS_API_KEY not configured''),
               Skipped 7 (anti_spam_window 10), Skipped 5 day_mismatch],
      worldOf [shop, cafe, gym])"
proof -
  have g: "getDay lostHost = getDay utcHost" by (simp add: lostHost_def)
  have f1: "filters lostHost origin tuesday shop =
      Inl (places_error ''GOOGLE_MAPS_API_KEY not configured'')"
    by (rule filters_places_error)
       (simp_all add: dayMismatch_def antiSpam_def shop_def newReminder_def lostHost_def utcHost_def)
  have "\<not> dayMismatch lostHost tuesday cafe"
    using cafe_no_mismatch by (simp add: dayMismatch_host [OF g])
  moreover have "antiSpam tuesday cafe = Some 10"
    by (simp add: antiSpam_def cafe_def newReminder_def tuesday_def)
  ultimately have f2: "filters lostHost origin tuesday cafe = Inl (anti_spam_window 10)"
    by (simp add: filters_anti_spam)
  have "dayMismatch lostHost tuesday gym"
    using gym_mismatch by (simp add: dayMismatch_host [OF g])
  then have f3: "filters lostHost origin tuesday gym = Inl day_mismatch"
    by (simp add: filters_day_mismatch)
  show ?thesis
    by (simp add: scanAndTrigger_unfold dbCall_def worldOf_def candidates gym_candidate
          scanOne_skipped f1 f2 f3)
qed

theorem scan_outcomes_witness:
  "faults (worldOf [shop, cafe, gym]) = [] \<and>
   scanAndTrigger lostHost origin tuesday (worldOf [shop, cafe, gym]) =
     (Returns [Skipped 8 (places_error ''GOOGLE_MAPS_API_KEY not configured''),
               Skipped 7 (anti_spam_window 10), Skipped 5 day_mismatch],
      worldOf [shop, cafe, gym]) \<and>
   map rid (filter (candidate origin) (reminders (worldOf [shop, cafe, gym]))) = [8, 7, 5] \<and>
   nearbyBestPlace lostHost 0 0 500 ''pharmacy'' = Throws ''GOOGLE_MAPS_API_KEY not configured'' \<and>
   scanOne lostHost origin tuesday shop (worldOf [shop, cafe, gym]) =
     (Returns (Skipped 8 (places_error ''GOOGLE_MAPS_API_KEY not configured'')),
      worldOf [shop, cafe, gym]) \<and>
   faults patchyWorld = [False, False, False, True, True] \<and>
   scanAndTrigger nearHost origin tuesday patchyWorld =
     (Returns [Triggered 8
        \<lparr>t_title = ''pharmacy'', body = None,
         bodyFallback = ''Reminder: You're near a place for pharmacy.'',
         t_place_id = Some ''ChIJ1'', t_place_name = Some ''Corner Pharmacy'', t_place_rating = Some 4,
         distanceMeters = Num 60, ttsTextHash = None\<rparr>,
       Skipped 7 (anti_spam_window 10)],
      \<lparr>reminders = [visited, cafe], notifications = [], faults = [], synthLog = []\<rparr>) \<and>
   map rid (filter (candidate origin) (reminders patchyWorld)) = [8, 7] \<and>
   \<not> (\<exists>err v. scanOne nearHost origin tuesday shop (snd (dbCall patchyWorld)) = (Throws err, v)) \<and>
   filters nearHost origin tuesday shop = Inr (northOf 60, Num 60) \<and>
   fst (dbCall (snd (dbCall (snd (dbCall brokenWorld))))) \<and>
   scanAndTrigger nearHost origin tuesday brokenWorld =
     (Throws ''findByIdAndUpdate rejected'',
      \<lparr>reminders = [shop, cafe], notifications = [], faults = [], synthLog = []\<rparr>)"
proof -
  have n: "nearbyBestPlace lostHost a b c k = Throws ''GOOGLE_MAPS_API_KEY not configured''" for a b c k
    by (simp add: lostHost_def utcHost_def)
  have s: "\<not> dayMismatch lostHost tuesday shop \<and> antiSpam tuesday shop = None \<and> title shop \<noteq> [] \<and>
    nearbyBestPlace lostHost (req_lat origin) (req_lng origin)
      (case req_radius origin of None \<Rightarrow> 500 | Some x \<Rightarrow> if x = 0 then 500 else x) (title shop) =
      Throws ''GOOGLE_MAPS_API_KEY not configured''"
    by (simp add: dayMismatch_def antiSpam_def shop_def newReminder_def n)
  note lost = scan_outcomes [where h = lostHost and req = origin and now = tuesday and
      w = "worldOf [shop, cafe, gym]" and r = shop and e = "''GOOGLE_MAPS_API_KEY not configured''"]
  have "map resultId [Skipped 8 (places_error ''GOOGLE_MAPS_API_KEY not configured''),
               Skipped 7 (anti_spam_window 10), Skipped 5 day_mismatch] =
      map rid (filter (candidate origin) (reminders (worldOf [shop, cafe, gym])))"
    by (rule lost [THEN conjunct1, rule_format, OF lost_scan])
  then have a: "map rid (filter (candidate origin) (reminders (worldOf [shop, cafe, gym]))) = [8, 7, 5]"
    by simp
  have b: "scanOne lostHost origin tuesday shop (worldOf [shop, cafe, gym]) =
     (Returns (Skipped (rid shop) (places_error ''GOOGLE_MAPS_API_KEY not configured'')),
      worldOf [shop, cafe, gym])"
    by (rule lost [THEN conjunct2, THEN conjunct2, THEN conjunct1, rule_format, OF s])
  have f: "faults (worldOf [shop, cafe, gym]) = []" by (simp add: worldOf_def)
  have pf: "faults patchyWorld = [False, False, False, True, True]" by (simp add: patchyWorld_def)
  note patchy = scan_outcomes [where h = nearHost and req = origin and now = tuesday and
      w = patchyWorld]
  have "map resultId [Triggered 8
        \<lparr>t_title = ''pharmacy'', body = None,
         bodyFallback = ''Reminder: You're near a place for pharmacy.'',
         t_place_id = Some ''ChIJ1'', t_place_name = Some ''Corner Pharmacy'', t_place_rating = Some 4,
         distanceMeters = Num 60, ttsTextHash = None\<rparr>,
       Skipped 7 (anti_spam_window 10)] =
      map rid (filter (candidate origin) (reminders patchyWorld))"
    by (rule patchy [THEN conjunct1, rule_format, OF patchy_scan])
  then have c: "map rid (filter (candidate origin) (reminders patchyWorld)) = [8, 7]" by simp
  have d1: "\<not> fst (dbCall (snd (dbCall patchyWorld)))"
    "\<not> fst (dbCall (snd (dbCall (snd (dbCall patchyWorld)))))"
    "find (\<lambda>x. rid x = rid shop) (reminders (snd (dbCall patchyWorld))) \<noteq> None"
    by (simp_all add: dbCall_def patchyWorld_def)
  note one = scan_outcomes [where h = nearHost and req = origin and now = tuesday and
      w = "snd (dbCall patchyWorld)" and r = shop,
      THEN conjunct2, THEN conjunct2, THEN conjunct2, THEN conjunct1]
  have d: "\<not> (\<exists>err v. scanOne nearHost origin tuesday shop (snd (dbCall patchyWorld)) = (Throws err, v))"
    unfolding one using d1 by simp
  have bf: "fst (dbCall (snd (dbCall (snd (dbCall brokenWorld)))))"
    by (simp add: dbCall_def brokenWorld_def)
  show ?thesis
    by (intro conjI f lost_scan a n b [unfolded candidates] pf patchy_scan c d shop_passes bf broken_scan)
qed

text \<open>
  The claim as stated fails: the collision query for the first of two candidates rejects,
  the exception reaches the outer \<open>catch\<close>, and the scan answers with status 500 and no
  result list; the second candidate is never processed.
\<close>

theorem scan_aborted_by_collision_query:
  "map rid (filter (candidate origin) (reminders flakyWorld)) = [8, 7] \<and>
   scanAndTrigger nearHost origin tuesday flakyWorld =
     (Throws ''Reminder.find rejected'', worldOf [shop, cafe])"
  by (simp add: scanAndTrigger_unfold dbCall_def flakyWorld_def worldOf_def candidates
        scanOne_def shop_passes hasCollision_result)

section \<open>The speech record after an enrichment pass\<close>

lemma templateText_nonempty: "templateText r u \<noteq> []"
  by (simp add: templateText_def Let_def split: reminder_type.splits)

lemma lineStage_line:
  assumes "lineStage h u rem = (rem2, src)"
  shows "\<exists>l. aiNotificationLine rem2 = Some l \<and> l \<noteq> []"
proof -
  have b: "buildNotificationText r u \<noteq> []" if "case aiNotificationLine r of Some l \<Rightarrow> l = [] | None \<Rightarrow> True" for r
    using that by (auto simp: buildNotificationText_def templateText_nonempty split: option.splits)
  show ?thesis
    using assms unfolding lineStage_def Let_def
    by (auto split: if_splits outcome.splits prod.splits option.splits simp: b)
qed

lemma ensureReminderTTS_throws_log:
  assumes "ensureReminderTTS h now i ou ov w = (Throws e, w')" and "faults w = []"
    and "find (\<lambda>x. rid x = i) (reminders w) = Some r0"
  shows "synthLog w' \<noteq> synthLog w"
proof -
  define msg where "msg = ttsText r0 ou"
  define v where "v = ttsVoice h r0 ov"
  define hash where "hash = computeTextHash msg v"
  have nup: "\<not> upToDate hash r0"
    using assms by (auto simp: ensureReminderTTS_def findById_no_faults Let_def msg_def v_def hash_def)
  obtain sr w2 where sv: "save (markPending v hash r0) w = (sr, w2)" by (metis surj_pair)
  from save_steady [OF sv] assms(2) have sr: "sr = Returns ()" by simp
  have l2: "synthLog w2 = synthLog w" using save_frame [OF sv] by simp
  from assms nup sv sr have "synthesizeAndStore h now msg v (markPending v hash r0) w2 = (Throws e, w')"
    by (simp add: ensureReminderTTS_def findById_no_faults Let_def msg_def v_def hash_def)
  from synthesizeAndStore_log [OF this] l2 show ?thesis by simp
qed

lemma storedLine_find:
  "storedLine i w = Some a \<longleftrightarrow> (\<exists>r. find (\<lambda>x. rid x = i) (reminders w) = Some r \<and> aiNotificationLine r = a)"
  by (auto simp: storedLine_def)

text \<open>
  After an enrichment pass over a reminder that has a start time, in which no database
  call rejects: the stored document carries the line of the pass, and its speech is either
  not ready or current for that line.
\<close>

lemma processBackgroundAI_with_start:
  assumes "processBackgroundAI h nowAI nowSlot nowTTS i optUser w = (Returns (Some en), w')"
    and "faults w = []" and "startDate (e_reminder en) \<noteq> None"
  shows "\<exists>r l. find (\<lambda>x. rid x = i) (reminders w') = Some r \<and>
           aiNotificationLine r = Some l \<and> l \<noteq> [] \<and> aiNotificationLine (e_reminder en) = Some l \<and>
           (tts_status (tts r) = Ready \<longrightarrow>
              textHash (tts r) = Some (computeTextHash l (ttsVoice h r None)))"
proof -
  have fb: "findById i w = (Returns (find (\<lambda>r. rid r = i) (reminders w)), w)"
    using assms(2) by (rule findById_no_faults)
  from assms(1) fb obtain rem0 where f0: "find (\<lambda>r. rid r = i) (reminders w) = Some rem0"
    by (auto simp: processBackgroundAI_def split: option.splits)
  obtain rem1 src invalid w2 where st: "scheduleStage h nowAI nowSlot rem0 w = ((rem1, src, invalid), w2)"
    by (metis prod_cases3 surj_pair)
  from scheduleStage_frame [OF st] have i1: "rid rem1 = i" and w2: "reminders w2 = reminders w"
    using find_rid [OF f0] by auto
  have f2: "faults w2 = []" using scheduleStage_invalid_only_gemini [OF st assms(2)] .
  define u where "u = (case optUser of Some x \<Rightarrow> x | None \<Rightarrow> user rem1)"
  obtain rem2 lsrc where ls: "lineStage h u rem1 = (rem2, lsrc)" by (metis surj_pair)
  from lineStage_frame [OF ls] i1 have i2: "rid rem2 = i" by simp
  from lineStage_line [OF ls] obtain l where l: "aiNotificationLine rem2 = Some l" "l \<noteq> []" by blast
  obtain sr w3 where sv: "save rem2 w2 = (sr, w3)" by (metis surj_pair)
  from save_steady [OF sv] f2 have sr: "sr = Returns ()" and f3: "faults w3 = []"
    by (auto simp: steady_def)
  have f02: "find (\<lambda>x. rid x = i) (reminders w2) = Some rem0" using f0 w2 by simp
  from save_find [OF sv f02 i2] sr have f3': "find (\<lambda>x. rid x = i) (reminders w3) = Some rem2" by auto
  have inv: "\<not> invalid" using assms(1) fb f0 st ls
    by (auto simp: processBackgroundAI_def u_def [symmetric] Let_def split: if_splits)
  from assms(1) fb f0 st ls inv sv sr
  have en: "e_reminder en = rem2"
    and w': "w' = (if startDate rem2 \<noteq> None
                   then snd (ensureReminderTTS h nowTTS (rid rem2) (Some u) None w3) else w3)"
    by (auto simp: processBackgroundAI_def u_def [symmetric] Let_def)
  with assms(3) have w'': "w' = snd (ensureReminderTTS h nowTTS i (Some u) None w3)"
    by (simp add: i2)
  obtain er where e: "ensureReminderTTS h nowTTS i (Some u) None w3 = (er, w')"
    using w'' by (metis prod.collapse)
  have sl3: "storedLine i w3 = Some (Some l)" using f3' l by (simp add: storedLine_def)
  from ensureReminderTTS_keeps_line [OF e sl3] obtain r where
    r: "find (\<lambda>x. rid x = i) (reminders w') = Some r" "aiNotificationLine r = Some l"
    unfolding storedLine_find by blast
  have "tts_status (tts r) = Ready \<longrightarrow> textHash (tts r) = Some (computeTextHash l (ttsVoice h r None))"
  proof (cases er)
    case (Throws e1)
    from ensureReminderTTS_throws_log [OF e [unfolded Throws] f3 f3']
    have "synthLog w' \<noteq> synthLog w3" .
    from ensureReminderTTS_throws [OF e [unfolded Throws] this] r(1)
    show ?thesis by auto
  next
    case (Returns r')
    from ensureReminderTTS_returns [OF e [unfolded Returns]] r(1)
    have "r' = r" and h: "textHash (tts r) = Some (computeTextHash (ttsText r (Some u)) (ttsVoice h r None))"
      by auto
    have "ttsText r (Some u) = l" using r(2) l(2) by (simp add: ttsText_def buildNotificationText_def)
    with h show ?thesis by simp
  qed
  with r l en show ?thesis by simp
qed

text \<open>
  C8, as the code has it. When \<open>ensureReminderTTS\<close> returns, the document it returns is the
  stored one, its \<open>tts.status\<close> is ready, its \<open>tts.textHash\<close> is the hash of its voice and its
  notification text, and its audio is the stored one, which is not empty, when nothing was
  synthesized, and otherwise whatever the synthesis returned, empty or not. When it throws
  after having asked for a synthesis, the stored status is pending or failed. The
  notification-line stage of the enrichment pass never touches the \<open>tts\<close> record, and the
  speech stage follows it only for a reminder with a start time: after such a pass in
  which no database call rejects, the stored speech is either not ready or current for the
  stored line; for a reminder without start time that is not up for scheduling the pass
  stores the \<open>tts\<close> record as it found it, whatever happens to the line.
\<close>

theorem tts_record_states:
  "(ensureReminderTTS h now i ou ov w = (Returns r', w') \<longrightarrow>
      find (\<lambda>x. rid x = i) (reminders w') = Some r' \<and> tts_status (tts r') = Ready \<and>
      textHash (tts r') = Some (computeTextHash (ttsText r' ou) (ttsVoice h r' ov)) \<and>
      (\<exists>a. audio (tts r') = Some a \<and>
         ((synthLog w' = synthLog w \<and> data a \<noteq> []) \<or>
          (synthLog w' = synthLog w @ [(ttsText r' ou, ttsVoice h r' ov)] \<and>
           synthesize h (ttsText r' ou) (ttsVoice h r' ov) = Returns (data a))))) \<and>
   (ensureReminderTTS h now i ou ov w = (Throws e, w') \<and> synthLog w' \<noteq> synthLog w \<longrightarrow>
      (\<exists>r. find (\<lambda>x. rid x = i) (reminders w') = Some r \<and>
           (tts_status (tts r) = Pending \<or> tts_status (tts r) = Failed))) \<and>
   tts (fst (lineStage h u rem)) = tts rem \<and>
   (find (\<lambda>x. rid x = i) (reminders w) = Some rem \<and> startDate rem = None \<and>
    (type rem \<noteq> Task \<or> isManualSchedule rem) \<longrightarrow>
      map_option tts (find (\<lambda>x. rid x = i)
        (reminders (snd (processBackgroundAI h nowAI nowSlot nowTTS i optUser w)))) = Some (tts rem)) \<and>
   (processBackgroundAI h nowAI nowSlot nowTTS i optUser w = (Returns (Some en), w') \<and>
    faults w = [] \<and> startDate (e_reminder en) \<noteq> None \<longrightarrow>
      (\<exists>r l. find (\<lambda>x. rid x = i) (reminders w') = Some r \<and>
             aiNotificationLine r = Some l \<and> l \<noteq> [] \<and> buildNotificationText r usr = l \<and>
             (tts_status (tts r) = Ready \<longrightarrow>
                textHash (tts r) = Some (computeTextHash l (ttsVoice h r None)))))"
proof (intro conjI impI)
  assume a: "ensureReminderTTS h now i ou ov w = (Returns r', w')"
  from ensureReminderTTS_returns [OF a] obtain r0 where
    b: "find (\<lambda>x. rid x = i) (reminders w') = Some r'" "ttsText r' ou = ttsText r0 ou"
       "ttsVoice h r' ov = ttsVoice h r0 ov" "tts_status (tts r') = Ready"
       "textHash (tts r') = Some (computeTextHash (ttsText r0 ou) (ttsVoice h r0 ov))"
    and c: "(r' = r0 \<and> synthLog w' = synthLog w \<and>
             upToDate (computeTextHash (ttsText r0 ou) (ttsVoice h r0 ov)) r0) \<or>
            (\<exists>b. synthesize h (ttsText r0 ou) (ttsVoice h r0 ov) = Returns b \<and>
                 audio (tts r') = Some \<lparr>data = b, contentType = ''audio/mpeg'', audio_size = length b\<rparr> \<and>
                 synthLog w' = synthLog w @ [(ttsText r0 ou, ttsVoice h r0 ov)])"
    by blast
  from b show "find (\<lambda>x. rid x = i) (reminders w') = Some r'" and "tts_status (tts r') = Ready"
    and "textHash (tts r') = Some (computeTextHash (ttsText r' ou) (ttsVoice h r' ov))"
    by simp_all
  from c show "\<exists>a. audio (tts r') = Some a \<and>
         ((synthLog w' = synthLog w \<and> data a \<noteq> []) \<or>
          (synthLog w' = synthLog w @ [(ttsText r' ou, ttsVoice h r' ov)] \<and>
           synthesize h (ttsText r' ou) (ttsVoice h r' ov) = Returns (data a)))"
  proof
    assume "r' = r0 \<and> synthLog w' = synthLog w \<and>
             upToDate (computeTextHash (ttsText r0 ou) (ttsVoice h r0 ov)) r0"
    then show ?thesis by (auto simp: upToDate_def split: option.splits)
  next
    assume "\<exists>b. synthesize h (ttsText r0 ou) (ttsVoice h r0 ov) = Returns b \<and>
                 audio (tts r') = Some \<lparr>data = b, contentType = ''audio/mpeg'', audio_size = length b\<rparr> \<and>
                 synthLog w' = synthLog w @ [(ttsText r0 ou, ttsVoice h r0 ov)]"
    then show ?thesis unfolding b(2,3) by auto
  qed
next
  assume "ensureReminderTTS h now i ou ov w = (Throws e, w') \<and> synthLog w' \<noteq> synthLog w"
  then show "\<exists>r. find (\<lambda>x. rid x = i) (reminders w') = Some r \<and>
           (tts_status (tts r) = Pending \<or> tts_status (tts r) = Failed)"
    using ensureReminderTTS_throws by blast
next
  show "tts (fst (lineStage h u rem)) = tts rem"
    using lineStage_frame [of h u rem] by (metis prod.collapse)
next
  assume "find (\<lambda>x. rid x = i) (reminders w) = Some rem \<and> startDate rem = None \<and>
    (type rem \<noteq> Task \<or> isManualSchedule rem)"
  then show "map_option tts (find (\<lambda>x. rid x = i)
        (reminders (snd (processBackgroundAI h nowAI nowSlot nowTTS i optUser w)))) = Some (tts rem)"
    using processBackgroundAI_without_start by blast
next
  assume a: "processBackgroundAI h nowAI nowSlot nowTTS i optUser w = (Returns (Some en), w') \<and>
    faults w = [] \<and> startDate (e_reminder en) \<noteq> None"
  then obtain r l where r: "find (\<lambda>x. rid x = i) (reminders w') = Some r"
      "aiNotificationLine r = Some l" "l \<noteq> []"
      "tts_status (tts r) = Ready \<longrightarrow> textHash (tts r) = Some (computeTextHash l (ttsVoice h r None))"
    using processBackgroundAI_with_start [of h nowAI nowSlot nowTTS i optUser w en w'] by blast
  have "buildNotificationText r usr = l" using r(2,3) by (simp add: buildNotificationText_def)
  with r show "\<exists>r l. find (\<lambda>x. rid x = i) (reminders w') = Some r \<and>
             aiNotificationLine r = Some l \<and> l \<noteq> [] \<and> buildNotificationText r usr = l \<and>
             (tts_status (tts r) = Ready \<longrightarrow>
                textHash (tts r) = Some (computeTextHash l (ttsVoice h r None)))"
    by blast
qed

lemma pharmacy_enriched:
  "processBackgroundAI liningAI 0 0 0 4 None pharmacyWorld =
     (Returns (Some \<lparr>e_reminder = pharmacy\<lparr>aiNotificationLine := Some ''New line''\<rparr>,
                     scheduleSource = None, lineSource = Some ''gemini''\<rparr>),
      pharmacyWorld\<lparr>reminders := [pharmacy\<lparr>aiNotificationLine := Some ''New line''\<rparr>]\<rparr>)"
  by (simp add: processBackgroundAI_def findById_def save_def dbCall_def pharmacyWorld_def
        pharmacy_def newReminder_def alice_def liningAI_def utcHost_def scheduleStage_def
        lineStage_def Let_def)

lemma lined_muted:
  "ensureReminderTTS muteHost 5 3 None None linedWorld =
     (Throws ''TTS generation failed (401)'',
      \<lparr>reminders = [lined\<lparr>tts := \<lparr>voiceId = Some ''voice1'',
                  textHash = Some (Sha256 ''voice1::Alice, time to call mum!''),
                  audio = None, tts_status = Failed, generatedAt = None\<rparr>\<rparr>],
       notifications = [], faults = [],
       synthLog = [(''Alice, time to call mum!'', Some ''voice1'')]\<rparr>)"
  by (simp add: ensureReminderTTS_def findById_def save_def dbCall_def linedWorld_def lined_def
        newReminder_def alice_def muteHost_def utcHost_def ttsText_def ttsVoice_def orElse_def
        buildNotificationText_def computeTextHash_def upToDate_def markPending_def markFailed_def
        synthesizeAndStore_def Let_def)


lemma lined_with_user:
  "ensureReminderTTS utcHost 5 3 (Some alice) None linedWorld = (Returns spoken, spokenWorld)"
  by (simp add: ensureReminderTTS_def findById_def save_def dbCall_def linedWorld_def lined_def
        spoken_def spokenWorld_def
        newReminder_def alice_def utcHost_def ttsText_def ttsVoice_def orElse_def
        buildNotificationText_def computeTextHash_def upToDate_def markPending_def markReady_def
        synthesizeAndStore_def Let_def)

lemma lined_enriched:
  "processBackgroundAI utcHost 0 0 5 3 None linedWorld =
     (Returns (Some \<lparr>e_reminder = lined, scheduleSource = None, lineSource = None\<rparr>), spokenWorld)"
proof -
  have a: "startDate lined = Some 36000000" "aiNotificationLine lined = Some ''Alice, time to call mum!''"
    "rid lined = 3" "user lined = alice" "type lined = Task"
    by (simp_all add: lined_def newReminder_def)
  have g: "\<not> geminiLoaded utcHost" by (simp add: utcHost_def)
  have f: "findById 3 linedWorld = (Returns (Some lined), linedWorld)"
    by (simp add: findById_def dbCall_def linedWorld_def a)
  have s: "save lined linedWorld = (Returns (), linedWorld)"
    by (simp add: save_def dbCall_def linedWorld_def a)
  show ?thesis
    by (simp add: processBackgroundAI_def f scheduleStage_def lineStage_def a g s lined_with_user)
qed

lemma lined_silent:
  "ensureReminderTTS silentHost 5 3 None None linedWorld =
     (Returns hushed,
      \<lparr>reminders = [hushed], notifications = [], faults = [],
       synthLog = [(''Alice, time to call mum!'', Some ''voice1'')]\<rparr>)"
  by (simp add: ensureReminderTTS_def findById_def save_def dbCall_def linedWorld_def lined_def
        hushed_def newReminder_def alice_def silentHost_def utcHost_def ttsText_def ttsVoice_def
        orElse_def buildNotificationText_def computeTextHash_def upToDate_def markPending_def
        markReady_def synthesizeAndStore_def Let_def)

theorem tts_record_states_witness:
  "ensureReminderTTS utcHost 5 3 None None linedWorld = (Returns spoken, spokenWorld) \<and>
   find (\<lambda>x. rid x = 3) (reminders spokenWorld) = Some spoken \<and> tts_status (tts spoken) = Ready \<and>
   textHash (tts spoken) = Some (computeTextHash (ttsText spoken None) (ttsVoice utcHost spoken None)) \<and>
   audio (tts spoken) = Some \<lparr>data = [73, 68, 51], contentType = ''audio/mpeg'', audio_size = 3\<rparr> \<and>
   synthLog spokenWorld = synthLog linedWorld @ [(ttsText spoken None, ttsVoice utcHost spoken None)] \<and>
   synthesize utcHost (ttsText spoken None) (ttsVoice utcHost spoken None) = Returns [73, 68, 51] \<and>
   fst (ensureReminderTTS silentHost 5 3 None None linedWorld) = Returns hushed \<and>
   tts_status (tts hushed) = Ready \<and>
   audio (tts hushed) = Some \<lparr>data = [], contentType = ''audio/mpeg'', audio_size = 0\<rparr> \<and>
   synthesize silentHost (ttsText hushed None) (ttsVoice silentHost hushed None) = Returns [] \<and>
   fst (ensureReminderTTS muteHost 5 3 None None linedWorld) = Throws ''TTS generation failed (401)'' \<and>
   synthLog (snd (ensureReminderTTS muteHost 5 3 None None linedWorld)) \<noteq> synthLog linedWorld \<and>
   map (\<lambda>r. tts_status (tts r)) (reminders (snd (ensureReminderTTS muteHost 5 3 None None linedWorld))) =
     [Failed] \<and>
   find (\<lambda>x. rid x = 4) (reminders pharmacyWorld) = Some pharmacy \<and> startDate pharmacy = None \<and>
   type pharmacy \<noteq> Task \<and>
   map_option tts (find (\<lambda>x. rid x = 4)
      (reminders (snd (processBackgroundAI liningAI 0 0 0 4 None pharmacyWorld)))) = Some (tts pharmacy) \<and>
   processBackgroundAI utcHost 0 0 5 3 None linedWorld =
     (Returns (Some \<lparr>e_reminder = lined, scheduleSource = None, lineSource = None\<rparr>), spokenWorld) \<and>
   faults linedWorld = [] \<and> startDate lined = Some 36000000 \<and>
   aiNotificationLine spoken = Some ''Alice, time to call mum!'' \<and>
   buildNotificationText spoken alice = ''Alice, time to call mum!'' \<and>
   textHash (tts spoken) =
     Some (computeTextHash ''Alice, time to call mum!'' (ttsVoice utcHost spoken None))"
proof -
  note first = tts_record_states [where h = utcHost and now = 5 and i = 3 and ou = None
      and ov = None and w = linedWorld and r' = spoken and w' = spokenWorld, THEN conjunct1,
      rule_format, OF lined_first_call]
  have au: "audio (tts spoken) = Some \<lparr>data = [73, 68, 51], contentType = ''audio/mpeg'', audio_size = 3\<rparr>"
    by (simp add: spoken_def)
  have nl: "synthLog spokenWorld \<noteq> synthLog linedWorld"
    by (simp add: spokenWorld_def linedWorld_def)
  from first au nl
  have a: "find (\<lambda>x. rid x = 3) (reminders spokenWorld) = Some spoken" "tts_status (tts spoken) = Ready"
    "textHash (tts spoken) = Some (computeTextHash (ttsText spoken None) (ttsVoice utcHost spoken None))"
    "synthLog spokenWorld = synthLog linedWorld @ [(ttsText spoken None, ttsVoice utcHost spoken None)]"
    "synthesize utcHost (ttsText spoken None) (ttsVoice utcHost spoken None) = Returns [73, 68, 51]"
    by auto
  have s: "fst (ensureReminderTTS silentHost 5 3 None None linedWorld) = Returns hushed"
    "tts_status (tts hushed) = Ready"
    "audio (tts hushed) = Some \<lparr>data = [], contentType = ''audio/mpeg'', audio_size = 0\<rparr>"
    "synthesize silentHost (ttsText hushed None) (ttsVoice silentHost hushed None) = Returns []"
    unfolding lined_silent by (simp_all add: hushed_def silentHost_def)
  have b: "fst (ensureReminderTTS muteHost 5 3 None None linedWorld) = Throws ''TTS generation failed (401)''"
    "synthLog (snd (ensureReminderTTS muteHost 5 3 None None linedWorld)) \<noteq> synthLog linedWorld"
    "map (\<lambda>r. tts_status (tts r)) (reminders (snd (ensureReminderTTS muteHost 5 3 None None linedWorld))) =
     [Failed]"
    unfolding lined_muted by (simp_all add: linedWorld_def)
  have c: "find (\<lambda>x. rid x = 4) (reminders pharmacyWorld) = Some pharmacy" "startDate pharmacy = None"
    "type pharmacy \<noteq> Task"
    by (simp_all add: pharmacyWorld_def pharmacy_def newReminder_def)
  have d: "map_option tts (find (\<lambda>x. rid x = 4)
      (reminders (snd (processBackgroundAI liningAI 0 0 0 4 None pharmacyWorld)))) = Some (tts pharmacy)"
    unfolding pharmacy_enriched by (simp add: pharmacy_def newReminder_def)
  have e: "faults linedWorld = []" "startDate lined = Some 36000000"
    "aiNotificationLine spoken = Some ''Alice, time to call mum!''"
    "buildNotificationText spoken alice = ''Alice, time to call mum!''"
    by (simp_all add: linedWorld_def lined_def spoken_def newReminder_def buildNotificationText_def)
  have g: "textHash (tts spoken) =
     Some (computeTextHash ''Alice, time to call mum!'' (ttsVoice utcHost spoken None))"
    using a(3) e(3) by (simp add: ttsText_def buildNotificationText_def)
  show ?thesis
    by (intro conjI lined_first_call a au s b c d lined_enriched e g)
qed

text \<open>
  The claim as stated fails twice. The enrichment pass gives the location reminder, whose
  speech is ready for the line it had, a new line, and stores it with \<open>tts.status\<close> still ready
  and the hash of the old text. And a synthesis that answers with an empty body is stored as
  ready speech with no audio in it.
\<close>

theorem tts_ready_with_stale_hash:
  "tts_status (tts pharmacy) = Ready \<and>
   textHash (tts pharmacy) = Some (computeTextHash (buildNotificationText pharmacy alice) (Some ''voice1'')) \<and>
   reminders (snd (processBackgroundAI liningAI 0 0 0 4 None pharmacyWorld)) =
     [pharmacy\<lparr>aiNotificationLine := Some ''New line''\<rparr>] \<and>
   buildNotificationText (pharmacy\<lparr>aiNotificationLine := Some ''New line''\<rparr>) alice = ''New line'' \<and>
   tts_status (tts (pharmacy\<lparr>aiNotificationLine := Some ''New line''\<rparr>)) = Ready \<and>
   textHash (tts (pharmacy\<lparr>aiNotificationLine := Some ''New line''\<rparr>)) \<noteq>
     Some (computeTextHash ''New line'' (Some ''voice1'')) \<and>
   reminders (snd (ensureReminderTTS silentHost 5 3 None None linedWorld)) = [hushed] \<and>
   tts_status (tts hushed) = Ready \<and>
   map_option data (audio (tts hushed)) = Some []"
  unfolding pharmacy_enriched lined_silent
  by (simp add: pharmacy_def newReminder_def buildNotificationText_def computeTextHash_def hushed_def)
end
